theory Spec2Isabelle
  imports Main "HOL-Library.Sublist" "HOL-Library.Multiset"
begin

section \<open>Data model\<close>

text \<open>
  Tab Shepherd routes browser tabs into windows. The background worker
  (\<^verbatim>\<open>background.js\<close>) keeps a table from window identifiers to group names
  in \<^verbatim>\<open>chrome.storage.local\<close> and reads the configured groups from
  \<^verbatim>\<open>chrome.storage.sync\<close>. Window and tab identifiers are the non-negative
  integers Chrome hands out; \<open>0\<close> is kept in the model because the code tests
  identifiers for truthiness.
\<close>

type_synonym window_id = nat
type_synonym tab_id = nat

text \<open>
  A JavaScript object with integer-like keys enumerates its entries in ascending
  key order. The table is therefore an association list whose entries are in
  enumeration order; an assignment to a new key puts the entry at its place in
  that order, an assignment to an existing key replaces the value in place.
\<close>

type_synonym bindings = "(window_id \<times> string) list"

fun bset :: "window_id \<Rightarrow> string \<Rightarrow> bindings \<Rightarrow> bindings" where
  "bset k v [] = [(k, v)]"
| "bset k v ((k', v') # bs) =
     (if k < k' then (k, v) # (k', v') # bs
      else if k = k' then (k, v) # bs
      else (k', v') # bset k v bs)"

definition bdelete :: "window_id \<Rightarrow> bindings \<Rightarrow> bindings" where
  "bdelete k bs = filter (\<lambda>e. fst e \<noteq> k) bs"

definition blookup :: "bindings \<Rightarrow> window_id \<Rightarrow> string option" where
  "blookup bs k = map_of bs k"

record tab =
  tabId :: tab_id
  tabWindowId :: window_id
  tabUrl :: "string option"
  tabTitle :: "string option"

record window =
  winId :: window_id
  winType :: string
  winTabs :: "tab list"

record group =
  name :: string
  patterns :: "string list"
  priority :: int
  mode :: "string option"

record config =
  enabled :: bool
  groups :: "group list"
  catchAllWindowId :: "window_id option"

datatype js_error = Error string

text \<open>
  The state the worker acts on: the browser's windows (identifier and type) and
  tabs, the persisted table (\<^verbatim>\<open>chrome.storage.local\<close>, key
  \<^verbatim>\<open>windowBindings\<close>) and the module variable that mirrors it.
\<close>

record state =
  liveWindows :: "(window_id \<times> string) list"
  liveTabs :: "tab list"
  stored :: bindings
  mirror :: bindings

section \<open>Storage helpers\<close>

definition getWindowBindings :: "state \<Rightarrow> bindings" where
  "getWindowBindings s = stored s"

definition saveWindowBindings :: "bindings \<Rightarrow> state \<Rightarrow> state" where
  "saveWindowBindings b s = s\<lparr>stored := b, mirror := b\<rparr>"

text \<open>
  \<^verbatim>\<open>bindWindow\<close>: the loop runs over the entries the table had when the loop
  started and deletes from the table as it goes.
\<close>

fun bindWindow_evict ::
  "(window_id \<times> string) list \<Rightarrow> window_id \<Rightarrow> string \<Rightarrow> bindings \<Rightarrow> bindings" where
  "bindWindow_evict [] windowId groupName b = b"
| "bindWindow_evict ((wid, gname) # es) windowId groupName b =
     bindWindow_evict es windowId groupName
       (if gname = groupName \<and> wid \<noteq> windowId then bdelete wid b else b)"

definition bindWindow :: "window_id \<Rightarrow> string \<Rightarrow> state \<Rightarrow> state" where
  "bindWindow windowId groupName s =
     (let b0 = getWindowBindings s;
          b1 = bindWindow_evict b0 windowId groupName b0;
          b2 = bset windowId groupName b1
      in saveWindowBindings b2 s)"

definition unbindWindow :: "window_id \<Rightarrow> state \<Rightarrow> state" where
  "unbindWindow windowId s =
     saveWindowBindings (bdelete windowId (getWindowBindings s)) s"

text \<open>
  The \<^verbatim>\<open>bindWindowToGroup\<close> case of the message handler. The message's
  \<^verbatim>\<open>windowId\<close> is a number or \<^verbatim>\<open>null\<close>; \<^verbatim>\<open>parseInt(wid) !== null\<close>
  holds for every key, and \<^verbatim>\<open>if (message.windowId)\<close> is false for
  \<^verbatim>\<open>null\<close> and for \<open>0\<close>.
\<close>

fun bindWindowToGroup_evict ::
  "(window_id \<times> string) list \<Rightarrow> window_id option \<Rightarrow> string \<Rightarrow> bindings \<Rightarrow> bindings" where
  "bindWindowToGroup_evict [] windowId groupName b = b"
| "bindWindowToGroup_evict ((wid, gname) # es) windowId groupName b =
     bindWindowToGroup_evict es windowId groupName
       (if gname = groupName \<and> Some wid \<noteq> windowId then bdelete wid b else b)"

definition bindWindowToGroup :: "window_id option \<Rightarrow> string \<Rightarrow> state \<Rightarrow> state" where
  "bindWindowToGroup windowId groupName s =
     (let b0 = getWindowBindings s;
          b1 = bindWindowToGroup_evict b0 windowId groupName b0;
          b2 = (case windowId of
                  None \<Rightarrow> b1
                | Some w \<Rightarrow> if w \<noteq> 0 then bset w groupName b1 else b1)
      in saveWindowBindings b2 s)"

section \<open>The browser\<close>

text \<open>
  \<^verbatim>\<open>chrome.windows.get\<close> rejects when no window has the identifier;
  \<^verbatim>\<open>chrome.windows.getAll({populate: true})\<close> returns every window with
  the tabs it holds; \<^verbatim>\<open>chrome.tabs.get\<close> rejects for an unknown tab;
  \<^verbatim>\<open>chrome.tabs.move\<close> with index \<open>-1\<close> puts the tab last in the target
  window and rejects when the tab or the window is unknown.
\<close>

definition windows_get :: "state \<Rightarrow> window_id \<Rightarrow> js_error + (window_id \<times> string)" where
  "windows_get s wid =
     (case find (\<lambda>w. fst w = wid) (liveWindows s) of
        None \<Rightarrow> Inl (Error ''No window with id'')
      | Some w \<Rightarrow> Inr w)"

definition windows_getAll :: "state \<Rightarrow> window list" where
  "windows_getAll s =
     map (\<lambda>w. \<lparr>winId = fst w, winType = snd w,
               winTabs = filter (\<lambda>t. tabWindowId t = fst w) (liveTabs s)\<rparr>)
         (liveWindows s)"

definition tabs_get :: "state \<Rightarrow> tab_id \<Rightarrow> js_error + tab" where
  "tabs_get s tid =
     (case find (\<lambda>t. tabId t = tid) (liveTabs s) of
        None \<Rightarrow> Inl (Error ''No tab with id'')
      | Some t \<Rightarrow> Inr t)"

definition tabs_move :: "tab_id \<Rightarrow> window_id \<Rightarrow> state \<Rightarrow> js_error + state" where
  "tabs_move tid wid s =
     (case find (\<lambda>t. tabId t = tid) (liveTabs s) of
        None \<Rightarrow> Inl (Error ''No tab with id'')
      | Some t \<Rightarrow>
          (case find (\<lambda>w. fst w = wid) (liveWindows s) of
             None \<Rightarrow> Inl (Error ''No window with id'')
           | Some w \<Rightarrow>
               Inr (s\<lparr>liveTabs := filter (\<lambda>t'. tabId t' \<noteq> tid) (liveTabs s)
                                     @ [t\<lparr>tabWindowId := wid\<rparr>]\<rparr>)))"

section \<open>Window lookup\<close>

text \<open>
  \<^verbatim>\<open>findWindowForGroup\<close>: the loop runs over the entries read at the start;
  the first entry of the group whose window exists is returned, an entry whose
  window is gone is deleted and the table saved before the loop goes on.
\<close>

fun findWindowForGroup_loop ::
  "(window_id \<times> string) list \<Rightarrow> string \<Rightarrow> bindings \<Rightarrow> state \<Rightarrow> window_id option \<times> state" where
  "findWindowForGroup_loop [] groupName b s = (None, s)"
| "findWindowForGroup_loop ((wid, boundGroup) # es) groupName b s =
     (if boundGroup = groupName then
        (case windows_get s wid of
           Inr w \<Rightarrow> (Some wid, s)
         | Inl e \<Rightarrow>
             (let b' = bdelete wid b
              in findWindowForGroup_loop es groupName b' (saveWindowBindings b' s)))
      else findWindowForGroup_loop es groupName b s)"

definition findWindowForGroup :: "string \<Rightarrow> state \<Rightarrow> window_id option \<times> state" where
  "findWindowForGroup groupName s =
     (let b = getWindowBindings s in findWindowForGroup_loop b groupName b s)"

section \<open>Pattern matching\<close>

text \<open>
  Strings are lists of 8-bit characters and \<^verbatim>\<open>toLowerCase\<close> folds the ASCII
  capitals; \<^verbatim>\<open>String.prototype.includes\<close> is substring containment. The
  regular-expression engine belongs to the JavaScript runtime: it is a
  parameter \<open>rx\<close> that, for a pattern, either fails to compile (\<open>None\<close>, the
  \<^verbatim>\<open>SyntaxError\<close> of \<^verbatim>\<open>new RegExp(pattern, 'i')\<close>) or gives the test
  function of the compiled expression.
\<close>

type_synonym regexp_engine = "string \<Rightarrow> (string \<Rightarrow> bool) option"

definition lowerChar :: "char \<Rightarrow> char" where
  "lowerChar c =
     (let n = (of_char c :: nat)
      in if 65 \<le> n \<and> n \<le> 90 then char_of (n + 32) else c)"

definition toLowerCase :: "string \<Rightarrow> string" where
  "toLowerCase s = map lowerChar s"

fun str_includes :: "string \<Rightarrow> string \<Rightarrow> bool" where
  "str_includes [] p = (p = [])"
| "str_includes (c # cs) p = (prefix p (c # cs) \<or> str_includes cs p)"

text \<open>
  \<^verbatim>\<open>matchesPattern\<close>: the guard \<^verbatim>\<open>!text || !pattern\<close>, then the body of the
  \<^verbatim>\<open>try\<close> block (\<open>matchesPattern_try\<close>, which can raise), then the
  \<^verbatim>\<open>catch\<close> clause, which turns every error into \<^verbatim>\<open>false\<close>.
\<close>

definition matchesPattern_try ::
  "regexp_engine \<Rightarrow> string \<Rightarrow> string \<Rightarrow> bool \<Rightarrow> js_error + bool" where
  "matchesPattern_try rx text pattern isSimpleMode =
     (if isSimpleMode then Inr (str_includes (toLowerCase text) (toLowerCase pattern))
      else (case rx pattern of
              None \<Rightarrow> Inl (Error ''Invalid regular expression'')
            | Some test \<Rightarrow> Inr (test text)))"

definition matchesPattern ::
  "regexp_engine \<Rightarrow> string option \<Rightarrow> string \<Rightarrow> bool \<Rightarrow> bool" where
  "matchesPattern rx text pattern isSimpleMode =
     (case text of
        None \<Rightarrow> False
      | Some t \<Rightarrow>
          if t = [] \<or> pattern = [] then False
          else (case matchesPattern_try rx t pattern isSimpleMode of
                  Inl e \<Rightarrow> False
                | Inr b \<Rightarrow> b))"

definition tabMatchesGroup ::
  "regexp_engine \<Rightarrow> string option \<Rightarrow> string option \<Rightarrow> group \<Rightarrow> bool" where
  "tabMatchesGroup rx url title grp =
     (let isSimple = (mode grp = Some ''simple'')
      in list_ex (\<lambda>pattern. matchesPattern rx url pattern isSimple
                            \<or> matchesPattern rx title pattern isSimple)
                 (patterns grp))"

section \<open>Group resolution\<close>

datatype match_type = TitleMatch | UrlMatch

record match_info =
  matchGroup :: group
  matchType :: match_type

definition getMatchInfo ::
  "regexp_engine \<Rightarrow> string option \<Rightarrow> string option \<Rightarrow> group \<Rightarrow> match_info option" where
  "getMatchInfo rx url title grp =
     (let isSimple = (mode grp = Some ''simple'')
      in if list_ex (\<lambda>pattern. matchesPattern rx title pattern isSimple) (patterns grp)
         then Some \<lparr>matchGroup = grp, matchType = TitleMatch\<rparr>
         else if list_ex (\<lambda>pattern. matchesPattern rx url pattern isSimple) (patterns grp)
         then Some \<lparr>matchGroup = grp, matchType = UrlMatch\<rparr>
         else None)"

text \<open>
  The two tests \<^verbatim>\<open>getMatchInfo\<close> makes, on their own: some pattern of the
  group matches the title (\<^verbatim>\<open>titleMatches\<close>), some pattern matches the URL
  (\<^verbatim>\<open>urlMatches\<close>), each in the group's mode.
\<close>

definition titleMatches :: "regexp_engine \<Rightarrow> string option \<Rightarrow> group \<Rightarrow> bool" where
  "titleMatches rx title grp =
     list_ex (\<lambda>pattern. matchesPattern rx title pattern (mode grp = Some ''simple''))
             (patterns grp)"

definition urlMatches :: "regexp_engine \<Rightarrow> string option \<Rightarrow> group \<Rightarrow> bool" where
  "urlMatches rx url grp =
     list_ex (\<lambda>pattern. matchesPattern rx url pattern (mode grp = Some ''simple''))
             (patterns grp)"

text \<open>
  \<^verbatim>\<open>Array.prototype.sort\<close> with a comparison function is a stable sort: an
  element goes before another when the function is negative, after it when
  positive, and equal elements keep their order. \<^verbatim>\<open>localeCompare\<close> belongs
  to the runtime and is the parameter \<open>lc\<close>.
\<close>

fun insort_cmp :: "('a \<Rightarrow> 'a \<Rightarrow> int) \<Rightarrow> 'a \<Rightarrow> 'a list \<Rightarrow> 'a list" where
  "insort_cmp c x [] = [x]"
| "insort_cmp c x (y # ys) = (if c x y \<le> 0 then x # y # ys else y # insort_cmp c x ys)"

definition sort_cmp :: "('a \<Rightarrow> 'a \<Rightarrow> int) \<Rightarrow> 'a list \<Rightarrow> 'a list" where
  "sort_cmp c xs = foldr (insort_cmp c) xs []"

definition matchCompare :: "(string \<Rightarrow> string \<Rightarrow> int) \<Rightarrow> match_info \<Rightarrow> match_info \<Rightarrow> int" where
  "matchCompare lc a b =
     (if matchType a = TitleMatch \<and> matchType b = UrlMatch then - 1
      else if matchType a = UrlMatch \<and> matchType b = TitleMatch then 1
      else lc (name (matchGroup a)) (name (matchGroup b)))"

definition findMatchingGroup ::
  "regexp_engine \<Rightarrow> (string \<Rightarrow> string \<Rightarrow> int) \<Rightarrow> config \<Rightarrow>
     string option \<Rightarrow> string option \<Rightarrow> group option" where
  "findMatchingGroup rx lc cfg url title =
     (if \<not> enabled cfg then None
      else
        (let matches = List.map_filter (getMatchInfo rx url title) (groups cfg)
         in if matches = [] then None
            else (case sort_cmp (matchCompare lc) matches of
                    [] \<Rightarrow> None
                  | m # ms \<Rightarrow> Some (matchGroup m))))"

section \<open>Rebinding on startup\<close>

definition truthy :: "string option \<Rightarrow> bool" where
  "truthy v = (case v of None \<Rightarrow> False | Some t \<Rightarrow> t \<noteq> [])"

definition hasMatchingTab :: "regexp_engine \<Rightarrow> window \<Rightarrow> group \<Rightarrow> bool" where
  "hasMatchingTab rx window grp =
     list_ex (\<lambda>tab. truthy (tabUrl tab)
                     \<and> tabMatchesGroup rx (tabUrl tab) (tabTitle tab) grp)
             (winTabs window)"

text \<open>
  The inner loop of \<^verbatim>\<open>rebindWindowsOnStartup\<close> over the windows, for one
  grp: the two \<^verbatim>\<open>continue\<close> guards, then the test and the \<^verbatim>\<open>break\<close>.
\<close>

fun rebind_windows :: "regexp_engine \<Rightarrow> group \<Rightarrow> window list \<Rightarrow> bindings \<Rightarrow> bindings" where
  "rebind_windows rx grp [] newBindings = newBindings"
| "rebind_windows rx grp (window # ws) newBindings =
     (if name grp \<in> snd ` set newBindings then rebind_windows rx grp ws newBindings
      else if truthy (blookup newBindings (winId window))
        then rebind_windows rx grp ws newBindings
      else if hasMatchingTab rx window grp
        then bset (winId window) (name grp) newBindings
      else rebind_windows rx grp ws newBindings)"

fun rebind_groups :: "regexp_engine \<Rightarrow> group list \<Rightarrow> window list \<Rightarrow> bindings \<Rightarrow> bindings" where
  "rebind_groups rx [] windows newBindings = newBindings"
| "rebind_groups rx (grp # gs) windows newBindings =
     rebind_groups rx gs windows (rebind_windows rx grp windows newBindings)"

definition rebindWindowsOnStartup :: "regexp_engine \<Rightarrow> config \<Rightarrow> state \<Rightarrow> state" where
  "rebindWindowsOnStartup rx cfg s =
     (if \<not> enabled cfg \<or> groups cfg = [] then s
      else saveWindowBindings (rebind_groups rx (groups cfg) (windows_getAll s) []) s)"

section \<open>Sorting all tabs\<close>

text \<open>
  A pass of \<^verbatim>\<open>sortAllTabs\<close> is modelled as it runs on its own: no other
  handler changes the windows, the tabs or the table between its steps.
  The pass carries the state, the counter and the error list of
  \<^verbatim>\<open>sortAllTabs\<close>, and a trace that records the program points the pass goes
  through: the start of a group's iteration (\<open>Processing\<close>), a tab pushed on
  \<^verbatim>\<open>tabsToMove\<close> (\<open>WillMove\<close>), the start of an iteration of the move loop
  (\<open>Attempt\<close>), a call of \<^verbatim>\<open>chrome.tabs.move\<close> (\<open>TabsMove\<close>) and its success
  (\<open>Moved\<close>). Every event carries the name of the group being processed.
\<close>

datatype event =
    Processing string
  | WillMove string tab_id
  | Attempt string tab_id
  | TabsMove string tab_id window_id
  | Moved string tab_id

record pass =
  passState :: state
  movedCount :: nat
  errors :: "string list"
  trace :: "event list"

definition internalUrl :: "string option \<Rightarrow> bool" where
  "internalUrl u =
     (case u of
        None \<Rightarrow> True
      | Some t \<Rightarrow> t = [] \<or> prefix ''chrome://'' t \<or> prefix ''chrome-extension://'' t)"

text \<open>
  The test a tab of a window passes to be pushed on \<^verbatim>\<open>tabsToMove\<close>: its URL
  is not internal, it matches the group, its window is not bound to the group,
  and its window is not bound to a configured group of strictly smaller
  priority number.
\<close>

definition ownedByHigherPriority :: "config \<Rightarrow> string option \<Rightarrow> group \<Rightarrow> bool" where
  "ownedByHigherPriority cfg currentWindowGroup grp =
     (case currentWindowGroup of
        None \<Rightarrow> False
      | Some cg \<Rightarrow>
          cg \<noteq> [] \<and>
          (case find (\<lambda>g. name g = cg) (groups cfg) of
             None \<Rightarrow> False
           | Some currentGroupConfig \<Rightarrow> priority currentGroupConfig < priority grp))"

definition shouldMove ::
  "regexp_engine \<Rightarrow> config \<Rightarrow> bindings \<Rightarrow> group \<Rightarrow> window \<Rightarrow> tab \<Rightarrow> bool" where
  "shouldMove rx cfg bindings grp window tab =
     (\<not> internalUrl (tabUrl tab) \<and>
      tabMatchesGroup rx (tabUrl tab) (tabTitle tab) grp \<and>
      (let currentWindowGroup = blookup bindings (winId window)
       in currentWindowGroup \<noteq> Some (name grp) \<and>
          \<not> ownedByHigherPriority cfg currentWindowGroup grp))"

definition collectTabsToMove ::
  "regexp_engine \<Rightarrow> config \<Rightarrow> bindings \<Rightarrow> group \<Rightarrow> window list \<Rightarrow> (tab \<times> window_id) list" where
  "collectTabsToMove rx cfg bindings grp windows =
     concat (map (\<lambda>window.
        if winType window \<noteq> ''normal'' then []
        else map (\<lambda>tab. (tab, winId window))
                 (filter (shouldMove rx cfg bindings grp window) (winTabs window)))
       windows)"

definition titleText :: "string option \<Rightarrow> string" where
  "titleText t = (case t of None \<Rightarrow> ''undefined'' | Some x \<Rightarrow> x)"

definition moveFailure :: "tab \<Rightarrow> js_error \<Rightarrow> string" where
  "moveFailure tab e =
     (case e of Error message \<Rightarrow>
        ''Failed to move tab '' @ [CHR 0x22] @ titleText (tabTitle tab) @ [CHR 0x22]
          @ '': '' @ message)"

text \<open>
  One iteration of the move loop of a group: it looks the target window up
  again, skips a tab that no longer exists, and moves the tab when the target
  is a window (a truthy identifier) other than the one the tab is in now. A
  failure of the move is recorded in \<^verbatim>\<open>errors\<close> and the loop goes on.
\<close>

definition attemptMove :: "string \<Rightarrow> tab \<times> window_id \<Rightarrow> pass \<Rightarrow> pass" where
  "attemptMove gname c p =
     (case c of (tab, sourceWindowId) \<Rightarrow>
        (let p0 = p\<lparr>trace := trace p @ [Attempt gname (tabId tab)]\<rparr>;
             (targetWindowId, s1) = findWindowForGroup gname (passState p0);
             p1 = p0\<lparr>passState := s1\<rparr>
         in case tabs_get s1 (tabId tab) of
              Inl e \<Rightarrow> p1
            | Inr currentTab \<Rightarrow>
                (case targetWindowId of
                   None \<Rightarrow> p1
                 | Some tw \<Rightarrow>
                     if tw \<noteq> 0 \<and> tw \<noteq> tabWindowId currentTab then
                       (case tabs_move (tabId tab) tw s1 of
                          Inr s2 \<Rightarrow>
                            p1\<lparr>passState := s2, movedCount := movedCount p1 + 1,
                               trace := trace p1 @ [TabsMove gname (tabId tab) tw,
                                                    Moved gname (tabId tab)]\<rparr>
                        | Inl e \<Rightarrow>
                            p1\<lparr>errors := errors p1 @ [moveFailure tab e],
                               trace := trace p1 @ [TabsMove gname (tabId tab) tw]\<rparr>)
                     else p1)))"

fun processMoves :: "string \<Rightarrow> (tab \<times> window_id) list \<Rightarrow> pass \<Rightarrow> pass" where
  "processMoves gname [] p = p"
| "processMoves gname (c # rest) p = processMoves gname rest (attemptMove gname c p)"

definition processGroup :: "regexp_engine \<Rightarrow> config \<Rightarrow> group \<Rightarrow> pass \<Rightarrow> pass" where
  "processGroup rx cfg grp p =
     (let windows = windows_getAll (passState p);
          bindings = getWindowBindings (passState p);
          (targetWindowId, s1) = findWindowForGroup (name grp) (passState p);
          tabsToMove = collectTabsToMove rx cfg bindings grp windows
      in processMoves (name grp) tabsToMove
           (p\<lparr>passState := s1,
              trace := trace p @ Processing (name grp)
                         # map (\<lambda>c. WillMove (name grp) (tabId (fst c))) tabsToMove\<rparr>))"

fun sortAllTabs_loop :: "regexp_engine \<Rightarrow> config \<Rightarrow> group list \<Rightarrow> pass \<Rightarrow> pass" where
  "sortAllTabs_loop rx cfg [] p = p"
| "sortAllTabs_loop rx cfg (grp # gs) p =
     sortAllTabs_loop rx cfg gs (processGroup rx cfg grp p)"

definition sortAllTabs :: "regexp_engine \<Rightarrow> config \<Rightarrow> state \<Rightarrow> pass" where
  "sortAllTabs rx cfg s =
     (let p = \<lparr>passState = s, movedCount = 0, errors = [], trace = []\<rparr>
      in if \<not> enabled cfg \<or> groups cfg = [] then p
         else sortAllTabs_loop rx cfg (sort_key priority (groups cfg)) p)"

section \<open>Predicates on states and traces\<close>

text \<open>
  A state is settled for a configuration when no group has a tab to move:
  \<^verbatim>\<open>tabsToMove\<close> comes out empty for every group.
\<close>

definition settled :: "regexp_engine \<Rightarrow> config \<Rightarrow> state \<Rightarrow> bool" where
  "settled rx cfg s =
     list_all (\<lambda>grp. collectTabsToMove rx cfg (stored s) grp (windows_getAll s) = [])
              (groups cfg)"

text \<open>
  Every tab that the resolver assigns to a group sits in a window bound to that
  group.
\<close>

definition resolvedInPlace ::
  "regexp_engine \<Rightarrow> (string \<Rightarrow> string \<Rightarrow> int) \<Rightarrow> config \<Rightarrow> state \<Rightarrow> bool" where
  "resolvedInPlace rx lc cfg s =
     list_all (\<lambda>tab. case findMatchingGroup rx lc cfg (tabUrl tab) (tabTitle tab) of
                       None \<Rightarrow> True
                     | Some grp \<Rightarrow> blookup (stored s) (tabWindowId tab) = Some (name grp))
              (liveTabs s)"

text \<open>
  A tab is held by a group name in a state when it is among the tabs, no other
  tab has its identifier, and the window it sits in is a live window that the
  persisted table binds to that name.
\<close>

definition heldBy :: "tab \<Rightarrow> string \<Rightarrow> state \<Rightarrow> bool" where
  "heldBy t n s =
     (t \<in> set (liveTabs s) \<and>
      list_all (\<lambda>t'. tabId t' \<noteq> tabId t \<or> t' = t) (liveTabs s) \<and>
      tabWindowId t \<in> fst ` set (liveWindows s) \<and>
      blookup (stored s) (tabWindowId t) = Some n)"

text \<open>The events of the move loop of the group named \<open>n\<close>, and the tabs it attempts.\<close>

fun isMoveEvent :: "string \<Rightarrow> event \<Rightarrow> bool" where
  "isMoveEvent n (Attempt n' t) = (n' = n)"
| "isMoveEvent n (TabsMove n' t w) = (n' = n)"
| "isMoveEvent n (Moved n' t) = (n' = n)"
| "isMoveEvent n (Processing n') = False"
| "isMoveEvent n (WillMove n' t) = False"

fun attemptsOf :: "event list \<Rightarrow> tab_id list" where
  "attemptsOf [] = []"
| "attemptsOf (Attempt n t # evs) = t # attemptsOf evs"
| "attemptsOf (e # evs) = attemptsOf evs"

fun movesOf :: "event list \<Rightarrow> (tab_id \<times> window_id) list" where
  "movesOf [] = []"
| "movesOf (TabsMove n t w # evs) = (t, w) # movesOf evs"
| "movesOf (e # evs) = movesOf evs"

text \<open>
  The block of trace one group leaves: the start of its iteration, the tabs
  pushed on \<^verbatim>\<open>tabsToMove\<close>, then the events of its move loop, which attempts
  exactly those tabs in that order.
\<close>

definition groupBlock :: "string \<Rightarrow> event list \<Rightarrow> bool" where
  "groupBlock n b =
     (\<exists>ids evs. b = Processing n # map (WillMove n) ids @ evs \<and>
                list_all (isMoveEvent n) evs \<and> attemptsOf evs = ids)"

section \<open>Export and import of the configuration\<close>

text \<open>
  The options page (\<^verbatim>\<open>options.js\<close>) exports the configuration with
  \<^verbatim>\<open>JSON.stringify\<close> and imports a file with \<^verbatim>\<open>JSON.parse\<close>. Both
  belong to the runtime; the model works on the JSON value that is written and
  read back (numbers are the integers the configuration uses). A property that
  is absent reads as \<^verbatim>\<open>undefined\<close>, here \<open>None\<close>.
\<close>

datatype json =
    JNull
  | JBool bool
  | JNum int
  | JStr string
  | JArr "json list"
  | JObj "(string \<times> json) list"

definition getProp :: "json \<Rightarrow> string \<Rightarrow> json option" where
  "getProp v k = (case v of JObj kvs \<Rightarrow> map_of kvs k | _ \<Rightarrow> None)"

definition jtruthy :: "json option \<Rightarrow> bool" where
  "jtruthy v =
     (case v of
        None \<Rightarrow> False
      | Some JNull \<Rightarrow> False
      | Some (JBool b) \<Rightarrow> b
      | Some (JNum n) \<Rightarrow> n \<noteq> 0
      | Some (JStr s) \<Rightarrow> s \<noteq> []
      | Some (JArr xs) \<Rightarrow> True
      | Some (JObj kvs) \<Rightarrow> True)"

definition isArray :: "json option \<Rightarrow> bool" where
  "isArray v = (case v of Some (JArr xs) \<Rightarrow> True | _ \<Rightarrow> False)"

text \<open>
  \<^verbatim>\<open>exportConfig\<close> serialises \<^verbatim>\<open>currentConfig\<close>; a group without a
  \<^verbatim>\<open>mode\<close> property is written without one.
\<close>

definition exportGroup :: "group \<Rightarrow> json" where
  "exportGroup grp =
     JObj ([(''name'', JStr (name grp)),
            (''patterns'', JArr (map JStr (patterns grp)))]
           @ (case mode grp of None \<Rightarrow> [] | Some m \<Rightarrow> [(''mode'', JStr m)])
           @ [(''priority'', JNum (priority grp))])"

definition exportConfig :: "config \<Rightarrow> json" where
  "exportConfig cfg =
     JObj [(''enabled'', JBool (enabled cfg)),
           (''groups'', JArr (map exportGroup (groups cfg))),
           (''catchAllWindowId'',
              (case catchAllWindowId cfg of None \<Rightarrow> JNull | Some w \<Rightarrow> JNum (int w)))]"

text \<open>
  The configuration object \<^verbatim>\<open>importConfig\<close> builds. Its groups carry
  whatever values the file had: \<^verbatim>\<open>name\<close> and \<^verbatim>\<open>patterns\<close> as read,
  \<^verbatim>\<open>mode\<close> defaulted with \<^verbatim>\<open>||\<close> and \<^verbatim>\<open>priority\<close> with \<^verbatim>\<open>??\<close>.
\<close>

record js_group =
  jsName :: "json option"
  jsPatterns :: "json option"
  jsMode :: "json option"
  jsPriority :: "json option"

record js_config =
  jsEnabled :: bool
  jsGroups :: "js_group list"
  jsCatchAllWindowId :: json

fun validateGroups :: "json list \<Rightarrow> js_error + unit" where
  "validateGroups [] = Inr ()"
| "validateGroups (g # gs) =
     (if g = JNull then Inl (Error ''Cannot read properties of null'')
      else if \<not> jtruthy (getProp g ''name'') \<or> \<not> isArray (getProp g ''patterns'')
        then Inl (Error ''Invalid config: group missing name or patterns'')
      else validateGroups gs)"

definition importGroup :: "nat \<times> json \<Rightarrow> js_group" where
  "importGroup ig =
     (case ig of (i, g) \<Rightarrow>
        \<lparr>jsName = getProp g ''name'',
         jsPatterns = getProp g ''patterns'',
         jsMode = (if jtruthy (getProp g ''mode'') then getProp g ''mode''
                   else Some (JStr ''simple'')),
         jsPriority = (case getProp g ''priority'' of
                         None \<Rightarrow> Some (JNum (int i))
                       | Some JNull \<Rightarrow> Some (JNum (int i))
                       | Some p \<Rightarrow> Some p)\<rparr>)"

definition importConfig :: "json \<Rightarrow> js_error + js_config" where
  "importConfig imported =
     (if imported = JNull then Inl (Error ''Cannot read properties of null'')
      else (case getProp imported ''groups'' of
              Some (JArr gs) \<Rightarrow>
                (case validateGroups gs of
                   Inl e \<Rightarrow> Inl e
                 | Inr u \<Rightarrow>
                     Inr \<lparr>jsEnabled = (getProp imported ''enabled'' \<noteq> Some (JBool False)),
                          jsGroups = map importGroup (enumerate 0 gs),
                          jsCatchAllWindowId =
                            (if jtruthy (getProp imported ''catchAllWindowId'')
                             then (case getProp imported ''catchAllWindowId'' of
                                     Some v \<Rightarrow> v | None \<Rightarrow> JNull)
                             else JNull)\<rparr>)
            | _ \<Rightarrow> Inl (Error ''Invalid config: missing groups array'')))"

text \<open>The object a group of the data model is, field by field.\<close>

definition toJsGroup :: "group \<Rightarrow> js_group" where
  "toJsGroup grp =
     \<lparr>jsName = Some (JStr (name grp)),
      jsPatterns = Some (JArr (map JStr (patterns grp))),
      jsMode = map_option JStr (mode grp),
      jsPriority = Some (JNum (priority grp))\<rparr>"

text \<open>
  A group is valid when it has a name and a mode (\<^verbatim>\<open>simple\<close> or
  \<^verbatim>\<open>regex\<close>), as the data model and the options page require.
\<close>

definition validGroup :: "group \<Rightarrow> bool" where
  "validGroup grp = (name grp \<noteq> [] \<and> (mode grp = Some ''simple'' \<or> mode grp = Some ''regex''))"

section \<open>Comparison functions\<close>

text \<open>
  A comparison function is consistent when it compares any two elements one
  way or the other and is transitive; \<^verbatim>\<open>localeCompare\<close> is. The examples use
  the comparison of strings by character codes, which is how
  \<^verbatim>\<open>localeCompare\<close> orders names made of digits and lower-case letters,
  and a regular-expression engine that compiles no pattern.
\<close>

definition comparator_ok :: "('a \<Rightarrow> 'a \<Rightarrow> int) \<Rightarrow> bool" where
  "comparator_ok c =
     ((\<forall>x y. c x y \<le> 0 \<or> c y x \<le> 0) \<and>
      (\<forall>x y z. c x y \<le> 0 \<and> c y z \<le> 0 \<longrightarrow> c x z \<le> 0))"

fun codeUnitCompare :: "string \<Rightarrow> string \<Rightarrow> int" where
  "codeUnitCompare [] [] = 0"
| "codeUnitCompare [] (y # ys) = - 1"
| "codeUnitCompare (x # xs) [] = 1"
| "codeUnitCompare (x # xs) (y # ys) =
     (if (of_char x :: nat) < of_char y then - 1
      else if (of_char y :: nat) < of_char x then 1
      else codeUnitCompare xs ys)"

definition noRegExp :: regexp_engine where
  "noRegExp pattern = None"

section \<open>Example configurations and states\<close>

text \<open>
  Concrete configurations and browser states on which the properties below are
  evaluated. All their groups are simple-mode groups, so the regular-expression
  engine \<open>noRegExp\<close> is never asked.
\<close>

definition exStaleState :: state where
  "exStaleState = \<lparr>liveWindows = [(100, ''normal'')], liveTabs = [],
         stored = [(100, ''Y''), (999, ''X'')], mirror = [(100, ''Y''), (999, ''X'')]\<rparr>"

definition exOverlapConfig :: config where
  "exOverlapConfig = \<lparr>enabled = True,
           groups = [\<lparr>name = ''work'', patterns = [''example''], priority = 0, mode = Some ''simple''\<rparr>,
                     \<lparr>name = ''docs'', patterns = [''readme''], priority = 1, mode = Some ''simple''\<rparr>,
                     \<lparr>name = ''code'', patterns = [''readme'', ''example''], priority = 2,
                        mode = Some ''simple''\<rparr>],
           catchAllWindowId = None\<rparr>"

definition exResolverConfig :: config where
  "exResolverConfig = \<lparr>enabled = True,
     groups = [\<lparr>name = ''alpha'', patterns = [''example''], priority = 0,
                  mode = Some ''simple''\<rparr>,
               \<lparr>name = ''docs'', patterns = [''readme''], priority = 1,
                  mode = Some ''simple''\<rparr>,
               \<lparr>name = ''code'', patterns = [''readme''], priority = 2,
                  mode = Some ''simple''\<rparr>],
     catchAllWindowId = None\<rparr>"

text \<open>
  The first window of a list that holds a tab whose URL or title matches a
  group: the reading of ``the first live window containing a tab whose URL or
  title matches it'' that \<^verbatim>\<open>rebindWindowsOnStartup\<close> is compared with.
\<close>

definition firstMatchingWindow :: "regexp_engine \<Rightarrow> group \<Rightarrow> window list \<Rightarrow> window option" where
  "firstMatchingWindow rx grp windows =
     find (\<lambda>window. list_ex (\<lambda>tab. tabMatchesGroup rx (tabUrl tab) (tabTitle tab) grp)
                              (winTabs window))
          windows"

definition exFeatureConfig :: config where
  "exFeatureConfig = \<lparr>enabled = True,
           groups = [\<lparr>name = ''3003'', patterns = [''3003''], priority = 0, mode = Some ''simple''\<rparr>],
           catchAllWindowId = None\<rparr>"




definition exNoUrlState :: state where
  "exNoUrlState = \<lparr>liveWindows = [(100, ''normal'')],
          liveTabs = [\<lparr>tabId = 1, tabWindowId = 100, tabUrl = Some [],
                       tabTitle = Some ''Feature branch - 3003''\<rparr>],
          stored = [], mirror = []\<rparr>"

definition exOwnerConfig :: config where
  "exOwnerConfig = \<lparr>enabled = True,
           groups = [\<lparr>name = ''X'', patterns = [''foo''], priority = 0, mode = Some ''simple''\<rparr>,
                     \<lparr>name = ''Y'', patterns = [''example''], priority = 1, mode = Some ''simple''\<rparr>],
           catchAllWindowId = None\<rparr>"

definition exOwnedTab :: tab where
  "exOwnedTab = \<lparr>tabId = 1, tabWindowId = 100, tabUrl = Some ''http://foo.example'',
           tabTitle = Some ''Foo''\<rparr>"

definition exOwnerState :: state where
  "exOwnerState = \<lparr>liveWindows = [(100, ''normal''), (200, ''normal'')],
         liveTabs = [exOwnedTab],
         stored = [(100, ''X'')], mirror = [(100, ''X'')]\<rparr>"

definition exThreeGroupsConfig :: config where
  "exThreeGroupsConfig = \<lparr>enabled = True,
            groups = [\<lparr>name = ''mail'', patterns = [''example.com''], priority = 0,
                         mode = Some ''simple''\<rparr>,
                      \<lparr>name = ''X'', patterns = [''example''], priority = 1, mode = Some ''simple''\<rparr>,
                      \<lparr>name = ''Y'', patterns = [''inbox''], priority = 2, mode = Some ''simple''\<rparr>],
            catchAllWindowId = None\<rparr>"

definition exInboxTab :: tab where
  "exInboxTab = \<lparr>tabId = 1, tabWindowId = 100, tabUrl = Some ''http://example.com/inbox'',
            tabTitle = Some ''Inbox''\<rparr>"

definition exThreeGroupsState :: state where
  "exThreeGroupsState = \<lparr>liveWindows = [(100, ''normal''), (200, ''normal'')],
          liveTabs = [exInboxTab],
          stored = [(100, ''X''), (200, ''mail'')], mirror = [(100, ''X''), (200, ''mail'')]\<rparr>"

definition exPortsConfig :: config where
  "exPortsConfig = \<lparr>enabled = True,
           groups = [\<lparr>name = ''3003'', patterns = [''localhost:3003''], priority = 0,
                        mode = Some ''simple''\<rparr>,
                     \<lparr>name = ''3004'', patterns = [''localhost:3004''], priority = 1,
                        mode = Some ''simple''\<rparr>],
           catchAllWindowId = None\<rparr>"

definition exPortsState :: state where
  "exPortsState = \<lparr>liveWindows = [(100, ''normal''), (200, ''normal'')],
         liveTabs = [\<lparr>tabId = 1, tabWindowId = 100, tabUrl = Some ''http://localhost:3003/app'',
                      tabTitle = Some ''App 3003''\<rparr>,
                     \<lparr>tabId = 2, tabWindowId = 200, tabUrl = Some ''http://localhost:3004/app'',
                        tabTitle = Some ''App 3004''\<rparr>],
         stored = [(100, ''3003''), (200, ''3004'')],
         mirror = [(100, ''3003''), (200, ''3004'')]\<rparr>"

definition exTitleConfig :: config where
  "exTitleConfig = \<lparr>enabled = True,
            groups = [\<lparr>name = ''X'', patterns = [''foo''], priority = 0, mode = Some ''simple''\<rparr>,
                      \<lparr>name = ''Y'', patterns = [''bar''], priority = 1, mode = Some ''simple''\<rparr>],
            catchAllWindowId = None\<rparr>"

definition exTitleState :: state where
  "exTitleState = \<lparr>liveWindows = [(100, ''normal''), (200, ''normal'')],
          liveTabs = [\<lparr>tabId = 1, tabWindowId = 200, tabUrl = Some ''http://foo.example'',
                       tabTitle = Some ''bar''\<rparr>],
          stored = [(100, ''X''), (200, ''Y'')], mirror = [(100, ''X''), (200, ''Y'')]\<rparr>"

definition exOrderConfig :: config where
  "exOrderConfig = \<lparr>enabled = True,
           groups = [\<lparr>name = ''Y'', patterns = [''bar''], priority = 1, mode = Some ''simple''\<rparr>,
                     \<lparr>name = ''X'', patterns = [''foo''], priority = 0, mode = Some ''simple''\<rparr>],
           catchAllWindowId = None\<rparr>"

definition exOrderState :: state where
  "exOrderState = \<lparr>liveWindows = [(100, ''normal''), (200, ''normal''), (300, ''normal'')],
         liveTabs = [\<lparr>tabId = 1, tabWindowId = 300, tabUrl = Some ''http://bar.example'',
                      tabTitle = Some ''Bar''\<rparr>,
                     \<lparr>tabId = 2, tabWindowId = 300, tabUrl = Some ''http://foo.example'',
                        tabTitle = Some ''Foo''\<rparr>,
                     \<lparr>tabId = 3, tabWindowId = 200, tabUrl = Some ''http://foo.example/2'',
                        tabTitle = Some ''Foo 2''\<rparr>],
         stored = [(100, ''X''), (200, ''Y'')], mirror = [(100, ''X''), (200, ''Y'')]\<rparr>"

section \<open>Properties of the binding table\<close>

lemma map_of_bset: "map_of (bset k v bs) = (map_of bs)(k \<mapsto> v)"
  by (induction bs) (auto simp: fun_eq_iff)

lemma set_bset_subset: "set (bset k v bs) \<subseteq> insert (k, v) (set bs)"
  by (induction bs) (auto split: if_splits)

lemma bindWindow_evict_filter:
  "bindWindow_evict es w g b = filter (\<lambda>e. \<not> (fst e \<noteq> w \<and> (fst e, g) \<in> set es)) b"
  by (induction es w g b rule: bindWindow_evict.induct) (auto simp: bdelete_def intro: filter_cong)

lemma bindWindowToGroup_evict_filter:
  "bindWindowToGroup_evict es wo g b =
     filter (\<lambda>e. \<not> (Some (fst e) \<noteq> wo \<and> (fst e, g) \<in> set es)) b"
  by (induction es wo g b rule: bindWindowToGroup_evict.induct)
     (auto simp: bdelete_def intro: filter_cong)

text \<open>
  C1. After \<^verbatim>\<open>bindWindow(w, g)\<close> the persisted table maps \<open>w\<close> to \<open>g\<close>, and
  the windows it maps to \<open>g\<close> are exactly \<open>w\<close>: no other window maps to \<open>g\<close>.
  This holds for every table, window and group name.
\<close>

theorem bindWindow_one_window_per_group:
  "blookup (stored (bindWindow w g s)) w = Some g \<and>
   {w'. blookup (stored (bindWindow w g s)) w' = Some g} = {w} \<and>
   {w'. (w', g) \<in> set (stored (bindWindow w g s))} = {w}"
proof -
  let ?b1 = "bindWindow_evict (stored s) w g (stored s)"
  let ?b2 = "bset w g ?b1"
  have st: "stored (bindWindow w g s) = ?b2"
    by (simp add: bindWindow_def getWindowBindings_def saveWindowBindings_def Let_def)
  have look: "blookup ?b2 w = Some g"
    by (simp add: blookup_def map_of_bset)
  have only: "w' = w" if "(w', g) \<in> set ?b2" for w'
  proof (rule ccontr)
    assume ne: "w' \<noteq> w"
    from that set_bset_subset [of w g ?b1] have "(w', g) \<in> set ?b1"
      using ne by auto
    then show False
      using ne by (auto simp: bindWindow_evict_filter)
  qed
  have ent: "{w'. (w', g) \<in> set ?b2} = {w}"
    using only look by (auto simp: blookup_def dest: map_of_SomeD)
  have "{w'. blookup ?b2 w' = Some g} = {w}"
    using only look by (auto simp: blookup_def dest: map_of_SomeD)
  with look ent st show ?thesis by simp
qed

lemma filter_snd_distinct_lookup:
  assumes "distinct (map fst b)" and "g' \<noteq> g"
  shows "map_of (filter (\<lambda>e. snd e \<noteq> g) b) w = Some g' \<longleftrightarrow> map_of b w = Some g'"
proof -
  have d: "distinct (map fst (filter (\<lambda>e. snd e \<noteq> g) b))"
    using assms(1) by (simp add: distinct_map_filter)
  have "map_of (filter (\<lambda>e. snd e \<noteq> g) b) w = Some g'
          \<longleftrightarrow> (w, g') \<in> set (filter (\<lambda>e. snd e \<noteq> g) b)"
    using d by (auto dest: map_of_SomeD)
  also have "\<dots> \<longleftrightarrow> (w, g') \<in> set b"
    using assms(2) by auto
  also have "\<dots> \<longleftrightarrow> map_of b w = Some g'"
    using assms(1) by (auto dest: map_of_SomeD)
  finally show ?thesis .
qed

text \<open>
  C10. A \<^verbatim>\<open>bindWindowToGroup\<close> request whose \<^verbatim>\<open>windowId\<close> is
  \<^verbatim>\<open>null\<close> (or absent) leaves a table in which no window maps to \<open>g\<close>.
  For a table with one entry per window (what a JavaScript object is) the new
  table consists of exactly the old entries for groups other than \<open>g\<close>, in
  the same order, so every lookup that gives another group is unchanged.
\<close>

theorem bindWindowToGroup_null_unbinds_group:
  "{w. blookup (stored (bindWindowToGroup None g s)) w = Some g} = {} \<and>
   (distinct (map fst (stored s)) \<longrightarrow>
      stored (bindWindowToGroup None g s) = filter (\<lambda>e. snd e \<noteq> g) (stored s) \<and>
      (\<forall>w g'. g' \<noteq> g \<longrightarrow>
         (blookup (stored (bindWindowToGroup None g s)) w = Some g'
            \<longleftrightarrow> blookup (stored s) w = Some g')))"
proof -
  have st: "stored (bindWindowToGroup None g s)
              = filter (\<lambda>e. (fst e, g) \<notin> set (stored s)) (stored s)"
    by (simp add: bindWindowToGroup_def getWindowBindings_def saveWindowBindings_def
          bindWindowToGroup_evict_filter Let_def)
  have none: "{w. blookup (stored (bindWindowToGroup None g s)) w = Some g} = {}"
    unfolding st blookup_def by (auto dest!: map_of_SomeD)
  have ent: "stored (bindWindowToGroup None g s) = filter (\<lambda>e. snd e \<noteq> g) (stored s)"
    if "distinct (map fst (stored s))"
    unfolding st using that
    by (intro filter_cong) (auto simp: eq_key_imp_eq_value)
  have other: "blookup (stored (bindWindowToGroup None g s)) w = Some g'
                 \<longleftrightarrow> blookup (stored s) w = Some g'"
    if "distinct (map fst (stored s))" and "g' \<noteq> g" for w g'
    using filter_snd_distinct_lookup [OF that] ent [OF that(1)]
    by (simp add: blookup_def)
  from none ent other show ?thesis by blast
qed

theorem bindWindowToGroup_null_unbinds_group_witness:
  "distinct (map fst [(100::nat, ''X''), (200, ''Y''), (300, ''X'')]) \<and>
   stored (bindWindowToGroup None ''X''
     \<lparr>liveWindows = [], liveTabs = [],
      stored = [(100, ''X''), (200, ''Y''), (300, ''X'')], mirror = []\<rparr>)
     = [(200, ''Y'')]"
  using bindWindowToGroup_null_unbinds_group
    [of "''X''" "\<lparr>liveWindows = [], liveTabs = [],
      stored = [(100, ''X''), (200, ''Y''), (300, ''X'')], mirror = []\<rparr>"]
  by simp

lemma liveWindows_save [simp]: "liveWindows (saveWindowBindings b s) = liveWindows s"
  and liveTabs_save [simp]: "liveTabs (saveWindowBindings b s) = liveTabs s"
  and stored_save [simp]: "stored (saveWindowBindings b s) = b"
  and mirror_save [simp]: "mirror (saveWindowBindings b s) = b"
  by (simp_all add: saveWindowBindings_def)

lemma save_save [simp]: "saveWindowBindings b2 (saveWindowBindings b1 s) = saveWindowBindings b2 s"
  by (simp add: saveWindowBindings_def)

lemma windows_get_save [simp]: "windows_get (saveWindowBindings b s) w = windows_get s w"
  by (simp add: windows_get_def)

lemma find_SomeD: "find P xs = Some x \<Longrightarrow> x \<in> set xs \<and> P x"
  by (induction xs) (auto split: if_splits)

lemma windows_get_Inr_iff: "(\<exists>x. windows_get s w = Inr x) \<longleftrightarrow> w \<in> fst ` set (liveWindows s)"
  by (auto simp: windows_get_def find_None_iff split: option.splits dest!: find_SomeD)

lemma windows_get_Inl_iff: "(\<exists>x. windows_get s w = Inl x) \<longleftrightarrow> w \<notin> fst ` set (liveWindows s)"
  by (auto simp: windows_get_def find_None_iff image_iff split: option.splits dest!: find_SomeD)

lemma findWindowForGroup_loop_live [simp]:
  "liveWindows (snd (findWindowForGroup_loop es g b s)) = liveWindows s"
  "liveTabs (snd (findWindowForGroup_loop es g b s)) = liveTabs s"
  by (induction es g b s rule: findWindowForGroup_loop.induct)
     (auto split: sum.splits simp: Let_def)

lemma findWindowForGroup_loop_stale:
  assumes "\<forall>e\<in>set es. snd e = g \<longrightarrow> fst e \<notin> fst ` set (liveWindows s)"
  shows "findWindowForGroup_loop es g b s =
           (None, if \<exists>e\<in>set es. snd e = g
                  then saveWindowBindings (filter (\<lambda>e. (fst e, g) \<notin> set es) b) s
                  else s)"
  using assms
proof (induction es g b s rule: findWindowForGroup_loop.induct)
  case (1 g b s)
  then show ?case by simp
next
  case (2 wid boundGroup es g b s)
  show ?case
  proof (cases "boundGroup = g")
    case False
    with 2 show ?thesis by auto
  next
    case True
    with "2.prems" have "wid \<notin> fst ` set (liveWindows s)" by auto
    then obtain e where e: "windows_get s wid = Inl e"
      using windows_get_Inl_iff by blast
    have "findWindowForGroup_loop es g (bdelete wid b) (saveWindowBindings (bdelete wid b) s)
       = (None, if \<exists>e\<in>set es. snd e = g
                  then saveWindowBindings (filter (\<lambda>e. (fst e, g) \<notin> set es) (bdelete wid b))
                          (saveWindowBindings (bdelete wid b) s)
                  else saveWindowBindings (bdelete wid b) s)"
      using "2.IH"(1) [OF True e refl] "2.prems" by simp
    moreover have "filter (\<lambda>e. (fst e, g) \<notin> set es) (bdelete wid b)
        = filter (\<lambda>e. (fst e, g) \<notin> set ((wid, boundGroup) # es)) b"
      using True by (auto simp: bdelete_def intro: filter_cong)
    moreover have "\<not> (\<exists>e\<in>set es. snd e = g) \<Longrightarrow>
        bdelete wid b = filter (\<lambda>e. (fst e, g) \<notin> set ((wid, boundGroup) # es)) b"
      using True by (auto simp: bdelete_def intro!: filter_cong)
    ultimately show ?thesis
      using True e by (auto simp: Let_def)
  qed
qed

text \<open>
  C6. When the table has an entry for group \<open>g\<close> whose window \<open>w\<close> is not a
  live window, and no live window is mapped to \<open>g\<close>, \<^verbatim>\<open>findWindowForGroup(g)\<close>
  returns \<^verbatim>\<open>null\<close> and the persisted table (and its mirror) no longer has an
  entry for \<open>w\<close>: the entries of the windows that were mapped to \<open>g\<close> are
  deleted, the others kept; windows and tabs are untouched.
\<close>

theorem findWindowForGroup_stale_entry:
  assumes "(w, g) \<in> set (stored s)"
    and "w \<notin> fst ` set (liveWindows s)"
    and "\<forall>w'\<in>fst ` set (liveWindows s). (w', g) \<notin> set (stored s)"
  shows "fst (findWindowForGroup g s) = None \<and>
         blookup (stored (snd (findWindowForGroup g s))) w = None \<and>
         stored (snd (findWindowForGroup g s))
           = filter (\<lambda>e. (fst e, g) \<notin> set (stored s)) (stored s) \<and>
         mirror (snd (findWindowForGroup g s)) = stored (snd (findWindowForGroup g s)) \<and>
         liveWindows (snd (findWindowForGroup g s)) = liveWindows s \<and>
         liveTabs (snd (findWindowForGroup g s)) = liveTabs s"
proof -
  have stale: "\<forall>e\<in>set (stored s). snd e = g \<longrightarrow> fst e \<notin> fst ` set (liveWindows s)"
    using assms(3) by force
  have ex: "\<exists>e\<in>set (stored s). snd e = g"
    using assms(1) by force
  have eq: "findWindowForGroup g s =
      (None, saveWindowBindings (filter (\<lambda>e. (fst e, g) \<notin> set (stored s)) (stored s)) s)"
    using findWindowForGroup_loop_stale [OF stale, of "stored s"] ex
    by (simp add: findWindowForGroup_def getWindowBindings_def Let_def)
  have "map_of (filter (\<lambda>e. (fst e, g) \<notin> set (stored s)) (stored s)) w = None"
    using assms(1) by (auto simp: map_of_eq_None_iff)
  with eq show ?thesis by (simp add: blookup_def)
qed

theorem findWindowForGroup_stale_entry_witness:
  "(999, ''X'') \<in> set (stored exStaleState) \<and> 999 \<notin> fst ` set (liveWindows exStaleState) \<and>
   fst (findWindowForGroup ''X'' exStaleState) = None \<and>
   stored (snd (findWindowForGroup ''X'' exStaleState)) = [(100, ''Y'')]"
  using findWindowForGroup_stale_entry [of 999 "''X''" exStaleState]
  by (simp add: exStaleState_def)

section \<open>Properties of pattern matching\<close>

lemma str_includes_sublist: "str_includes t p \<longleftrightarrow> sublist p t"
  by (induction t) (auto simp: sublist_Cons_right)

text \<open>
  C4. \<^verbatim>\<open>matchesPattern\<close> returns \<^verbatim>\<open>false\<close> when the text is absent or
  empty, when the pattern is empty, and, in regex mode, when the pattern does
  not compile; whatever the \<^verbatim>\<open>try\<close> block raises is answered with
  \<^verbatim>\<open>false\<close>, so no error reaches the caller. In simple mode a non-empty text
  matches a non-empty pattern exactly when the lower-cased pattern is a
  substring of the lower-cased text.
\<close>

theorem matchesPattern_contract:
  "matchesPattern rx None pattern isSimpleMode = False \<and>
   matchesPattern rx (Some []) pattern isSimpleMode = False \<and>
   matchesPattern rx text [] isSimpleMode = False \<and>
   (rx pattern = None \<longrightarrow> matchesPattern rx text pattern False = False) \<and>
   (matchesPattern_try rx t pattern isSimpleMode = Inl e \<longrightarrow>
      matchesPattern rx (Some t) pattern isSimpleMode = False) \<and>
   (t \<noteq> [] \<and> pattern \<noteq> [] \<longrightarrow>
      matchesPattern rx (Some t) pattern True
        = sublist (toLowerCase pattern) (toLowerCase t))"
  by (auto simp: matchesPattern_def matchesPattern_try_def str_includes_sublist
           split: option.splits sum.splits)

theorem matchesPattern_contract_witness:
  "matchesPattern_try (\<lambda>p. None) ''http://a'' ''[a'' False
     = Inl (Error ''Invalid regular expression'') \<and>
   matchesPattern (\<lambda>p. None) (Some ''http://a'') ''[a'' False = False \<and>
   ''Feature Branch - 3003'' \<noteq> [] \<and> ''BRANCH'' \<noteq> [] \<and>
   matchesPattern (\<lambda>p. None) (Some ''Feature Branch - 3003'') ''BRANCH'' True = True"
proof -
  have t: "matchesPattern_try (\<lambda>p. None) ''http://a'' ''[a'' False
             = Inl (Error ''Invalid regular expression'')"
    by (simp add: matchesPattern_try_def)
  have a: "matchesPattern (\<lambda>p. None) (Some ''http://a'') ''[a'' False = False"
    using t matchesPattern_contract
      [of "\<lambda>p. None" "''[a''" False "Some ''http://a''" "''http://a''"
          "Error ''Invalid regular expression''"]
    by blast
  have b: "matchesPattern (\<lambda>p. None) (Some ''Feature Branch - 3003'') ''BRANCH'' True
             = sublist (toLowerCase ''BRANCH'') (toLowerCase ''Feature Branch - 3003'')"
    using matchesPattern_contract
      [of "\<lambda>p. None" "''BRANCH''" True "None" "''Feature Branch - 3003''" "Error []"]
    by simp
  have c: "sublist (toLowerCase ''BRANCH'') (toLowerCase ''Feature Branch - 3003'')"
    by code_simp
  from t a b c show ?thesis by simp
qed

section \<open>Properties of group resolution\<close>

lemma set_insort_cmp [simp]: "set (insort_cmp c x xs) = insert x (set xs)"
  by (induction xs) auto


lemma sort_cmp_Nil [simp]: "sort_cmp c [] = []"
  by (simp add: sort_cmp_def)

lemma sort_cmp_Cons [simp]: "sort_cmp c (x # xs) = insort_cmp c x (sort_cmp c xs)"
  by (simp add: sort_cmp_def)

lemma set_sort_cmp [simp]: "set (sort_cmp c xs) = set xs"
  by (induction xs) simp_all

lemma sort_cmp_Nil_iff [simp]: "sort_cmp c xs = [] \<longleftrightarrow> xs = []"
  by (cases xs) (simp_all, metis set_insort_cmp insert_not_empty set_empty)

lemma insort_cmp_hd_least:
  assumes ok: "comparator_ok c"
    and l: "\<forall>y\<in>set l. c (hd l) y \<le> 0"
  shows "\<forall>y\<in>set (insort_cmp c x l). c (hd (insort_cmp c x l)) y \<le> 0"
proof (cases l)
  case Nil
  from ok have "c x x \<le> 0" unfolding comparator_ok_def by blast
  with Nil show ?thesis by simp
next
  case (Cons y ys)
  from ok have refl: "\<And>a. c a a \<le> 0" unfolding comparator_ok_def by blast
  from ok have tot: "\<And>a b. \<not> c a b \<le> 0 \<Longrightarrow> c b a \<le> 0"
    unfolding comparator_ok_def by blast
  from ok have tr: "\<And>a b d. c a b \<le> 0 \<Longrightarrow> c b d \<le> 0 \<Longrightarrow> c a d \<le> 0"
    unfolding comparator_ok_def by blast
  show ?thesis
  proof (cases "c x y \<le> 0")
    case True
    have "c x z \<le> 0" if "z \<in> set l" for z
    proof -
      from l that Cons have "c y z \<le> 0" by auto
      with True show ?thesis by (rule tr)
    qed
    with True Cons refl [of x] show ?thesis by auto
  next
    case False
    then have "c y x \<le> 0" by (rule tot)
    with False Cons l show ?thesis by auto
  qed
qed

lemma sort_cmp_hd_least:
  "comparator_ok c \<Longrightarrow> \<forall>y\<in>set xs. c (hd (sort_cmp c xs)) y \<le> 0"
proof (induction xs)
  case Nil
  then show ?case by simp
next
  case (Cons x xs)
  from insort_cmp_hd_least [OF Cons.prems, of "sort_cmp c xs" x] Cons
  show ?case by simp
qed

lemma insort_cmp_map:
  "(\<And>a b. c (f a) (f b) = c a b) \<Longrightarrow> insort_cmp c (f x) (map f xs) = map f (insort_cmp c x xs)"
  by (induction xs) auto

lemma sort_cmp_map:
  "(\<And>a b. c (f a) (f b) = c a b) \<Longrightarrow> sort_cmp c (map f xs) = map f (sort_cmp c xs)"
  by (induction xs) (simp_all add: insort_cmp_map)

lemma matchCompare_le_iff:
  "matchCompare lc a b \<le> 0 \<longleftrightarrow>
     (matchType a = TitleMatch \<and> matchType b = UrlMatch) \<or>
     (matchType a = matchType b \<and> lc (name (matchGroup a)) (name (matchGroup b)) \<le> 0)"
  by (cases "matchType a"; cases "matchType b"; simp add: matchCompare_def)

lemma matchCompare_ok:
  assumes "comparator_ok lc"
  shows "comparator_ok (matchCompare lc)"
proof -
  from assms have tot: "\<And>a b. lc a b \<le> 0 \<or> lc b a \<le> 0"
    unfolding comparator_ok_def by blast
  from assms have tr: "\<And>a b d. lc a b \<le> 0 \<Longrightarrow> lc b d \<le> 0 \<Longrightarrow> lc a d \<le> 0"
    unfolding comparator_ok_def by blast
  have t: "matchCompare lc x y \<le> 0 \<or> matchCompare lc y x \<le> 0" for x y
    using tot [of "name (matchGroup x)" "name (matchGroup y)"]
    by (cases "matchType x"; cases "matchType y"; simp add: matchCompare_le_iff)
  have r: "matchCompare lc x z \<le> 0"
    if "matchCompare lc x y \<le> 0" and "matchCompare lc y z \<le> 0" for x y z
    using that tr [of "name (matchGroup x)" "name (matchGroup y)" "name (matchGroup z)"]
    by (cases "matchType x"; cases "matchType y"; cases "matchType z";
        simp add: matchCompare_le_iff)
  from t r show ?thesis unfolding comparator_ok_def by blast
qed

lemma codeUnitCompare_total: "codeUnitCompare a b \<le> 0 \<or> codeUnitCompare b a \<le> 0"
  by (induction a b rule: codeUnitCompare.induct) simp_all

lemma codeUnitCompare_trans:
  "codeUnitCompare a b \<le> 0 \<Longrightarrow> codeUnitCompare b d \<le> 0 \<Longrightarrow> codeUnitCompare a d \<le> 0"
proof (induction a b arbitrary: d rule: codeUnitCompare.induct)
  case 1
  then show ?case by simp
next
  case (2 y ys)
  then show ?case by (cases d) simp_all
next
  case (3 x xs)
  then show ?case by simp
next
  case (4 x xs y ys)
  show ?case
  proof (cases d)
    case Nil
    with 4 show ?thesis by simp
  next
    case (Cons z zs)
    define m n k where "m = (of_char x :: nat)" and "n = (of_char y :: nat)" and "k = (of_char z :: nat)"
    from "4.prems"(1) have xy: "m < n \<or> (m = n \<and> codeUnitCompare xs ys \<le> 0)"
      unfolding m_def n_def by (simp split: if_splits)
    from "4.prems"(2) Cons have yz: "n < k \<or> (n = k \<and> codeUnitCompare ys zs \<le> 0)"
      unfolding n_def k_def by (simp split: if_splits)
    show ?thesis
    proof (cases "m < k")
      case True
      then show ?thesis unfolding Cons m_def k_def by simp
    next
      case False
      with xy yz have eq: "m = n" "n = k" and r: "codeUnitCompare xs ys \<le> 0" "codeUnitCompare ys zs \<le> 0"
        by auto
      from eq have nlt: "\<not> m < n" "\<not> n < m" by auto
      have "codeUnitCompare xs zs \<le> 0"
        using "4.IH" [OF nlt [unfolded m_def n_def] r] .
      with eq show ?thesis unfolding Cons m_def n_def k_def by simp
    qed
  qed
qed

lemma codeUnitCompare_ok: "comparator_ok codeUnitCompare"
  unfolding comparator_ok_def
  using codeUnitCompare_total codeUnitCompare_trans by blast

lemma getMatchInfo_None_iff:
  "getMatchInfo rx url title g = None \<longleftrightarrow> \<not> tabMatchesGroup rx url title g"
  by (auto simp: getMatchInfo_def tabMatchesGroup_def Let_def list_ex_iff)

lemma getMatchInfo_group:
  "getMatchInfo rx url title g = Some m \<Longrightarrow> matchGroup m = g"
  by (auto simp: getMatchInfo_def Let_def split: if_splits)

lemma set_map_filter: "set (List.map_filter f xs) = {y. \<exists>x\<in>set xs. f x = Some y}"
  by (induction xs) (auto simp: List.map_filter_simps split: option.splits)

lemma map_filter_Nil_iff: "List.map_filter f xs = [] \<longleftrightarrow> (\<forall>x\<in>set xs. f x = None)"
  by (induction xs) (auto simp: List.map_filter_simps split: option.splits)

lemma getMatchInfo_priority:
  "getMatchInfo rx url title (g\<lparr>priority := h g\<rparr>)
     = map_option (\<lambda>m. m\<lparr>matchGroup := (matchGroup m)\<lparr>priority := h (matchGroup m)\<rparr>\<rparr>)
         (getMatchInfo rx url title g)"
  by (simp add: getMatchInfo_def Let_def)

lemma map_filter_map_option:
  "(\<And>x. f' (u x) = map_option v (f x)) \<Longrightarrow>
     List.map_filter f' (map u xs) = map v (List.map_filter f xs)"
  by (induction xs) (auto simp: List.map_filter_simps split: option.splits)

lemma findMatchingGroup_least_candidate:
  assumes ok: "comparator_ok lc"
  shows "(\<not> enabled cfg \<longrightarrow> findMatchingGroup rx lc cfg url title = None) \<and>
    ((\<forall>g\<in>set (groups cfg). \<not> tabMatchesGroup rx url title g) \<longrightarrow>
       findMatchingGroup rx lc cfg url title = None) \<and>
    (enabled cfg \<and> (\<exists>g\<in>set (groups cfg). tabMatchesGroup rx url title g) \<longrightarrow>
       (\<exists>g m. findMatchingGroup rx lc cfg url title = Some g \<and>
              g \<in> set (groups cfg) \<and>
              getMatchInfo rx url title g = Some m \<and>
              (\<forall>g'\<in>set (groups cfg). \<forall>m'. getMatchInfo rx url title g' = Some m' \<longrightarrow>
                 (matchType m' = TitleMatch \<longrightarrow> matchType m = TitleMatch) \<and>
                 (matchType m' = matchType m \<longrightarrow> lc (name g) (name g') \<le> 0)))) \<and>
    findMatchingGroup rx lc (cfg\<lparr>groups := map (\<lambda>g. g\<lparr>priority := h g\<rparr>) (groups cfg)\<rparr>) url title
      = map_option (\<lambda>g. g\<lparr>priority := h g\<rparr>) (findMatchingGroup rx lc cfg url title)"
proof -
  let ?ms = "List.map_filter (getMatchInfo rx url title) (groups cfg)"
  let ?srt = "sort_cmp (matchCompare lc) ?ms"
  have dis: "\<not> enabled cfg \<longrightarrow> findMatchingGroup rx lc cfg url title = None"
    by (simp add: findMatchingGroup_def)
  have none: "(\<forall>g\<in>set (groups cfg). \<not> tabMatchesGroup rx url title g) \<longrightarrow>
       findMatchingGroup rx lc cfg url title = None"
    by (simp add: findMatchingGroup_def Let_def map_filter_Nil_iff getMatchInfo_None_iff)
  have some: "\<exists>g m. findMatchingGroup rx lc cfg url title = Some g \<and>
              g \<in> set (groups cfg) \<and>
              getMatchInfo rx url title g = Some m \<and>
              (\<forall>g'\<in>set (groups cfg). \<forall>m'. getMatchInfo rx url title g' = Some m' \<longrightarrow>
                 (matchType m' = TitleMatch \<longrightarrow> matchType m = TitleMatch) \<and>
                 (matchType m' = matchType m \<longrightarrow> lc (name g) (name g') \<le> 0))"
    if en: "enabled cfg" and ex: "\<exists>g\<in>set (groups cfg). tabMatchesGroup rx url title g"
  proof -
    from ex have ne: "?ms \<noteq> []"
      by (simp add: map_filter_Nil_iff getMatchInfo_None_iff)
    then have "?srt \<noteq> []" by simp
    then obtain m rest where srt: "?srt = m # rest" by (cases ?srt) auto
    then have "m \<in> set ?srt" by simp
    then have "m \<in> set ?ms" by simp
    then obtain g where g: "g \<in> set (groups cfg)" "getMatchInfo rx url title g = Some m"
      by (auto simp: set_map_filter)
    then have mg: "matchGroup m = g" by (simp add: getMatchInfo_group)
    have res: "findMatchingGroup rx lc cfg url title = Some g"
      using en ne srt mg by (simp add: findMatchingGroup_def Let_def)
    have least: "\<forall>y\<in>set ?ms. matchCompare lc m y \<le> 0"
      using sort_cmp_hd_least [OF matchCompare_ok [OF ok], of ?ms] srt by simp
    have cmp: "(matchType m' = TitleMatch \<longrightarrow> matchType m = TitleMatch) \<and>
               (matchType m' = matchType m \<longrightarrow> lc (name g) (name g') \<le> 0)"
      if g': "g' \<in> set (groups cfg)" and m': "getMatchInfo rx url title g' = Some m'" for g' m'
    proof -
      from g' m' have "m' \<in> set ?ms" by (auto simp: set_map_filter)
      with least have "matchCompare lc m m' \<le> 0" by blast
      moreover from m' have "matchGroup m' = g'" by (simp add: getMatchInfo_group)
      ultimately show ?thesis
        using mg by (cases "matchType m"; cases "matchType m'"; simp add: matchCompare_le_iff)
    qed
    from res g cmp show ?thesis by blast
  qed
  let ?u = "\<lambda>g. g\<lparr>priority := h g\<rparr>"
  let ?v = "\<lambda>m. m\<lparr>matchGroup := (matchGroup m)\<lparr>priority := h (matchGroup m)\<rparr>\<rparr>"
  have mf: "List.map_filter (getMatchInfo rx url title) (map ?u (groups cfg)) = map ?v ?ms"
    by (rule map_filter_map_option) (rule getMatchInfo_priority)
  have sc: "sort_cmp (matchCompare lc) (map ?v ?ms) = map ?v ?srt"
    by (rule sort_cmp_map) (simp add: matchCompare_def)
  have pri: "findMatchingGroup rx lc (cfg\<lparr>groups := map ?u (groups cfg)\<rparr>) url title
      = map_option ?u (findMatchingGroup rx lc cfg url title)"
    by (cases ?srt) (simp_all add: findMatchingGroup_def Let_def mf sc)
  from dis none some pri show ?thesis by blast
qed

lemma getMatchInfo_eq:
  "getMatchInfo rx url title g =
     (if titleMatches rx title g then Some \<lparr>matchGroup = g, matchType = TitleMatch\<rparr>
      else if urlMatches rx url g then Some \<lparr>matchGroup = g, matchType = UrlMatch\<rparr>
      else None)"
  by (simp add: getMatchInfo_def titleMatches_def urlMatches_def Let_def)

lemma tabMatchesGroup_iff:
  "tabMatchesGroup rx url title g \<longleftrightarrow> titleMatches rx title g \<or> urlMatches rx url g"
  by (auto simp: tabMatchesGroup_def titleMatches_def urlMatches_def Let_def list_ex_iff)

lemma getMatchInfo_kind:
  "getMatchInfo rx url title g = Some m \<Longrightarrow>
     (matchType m = TitleMatch \<longleftrightarrow> titleMatches rx title g) \<and>
     (matchType m = UrlMatch \<longleftrightarrow> \<not> titleMatches rx title g \<and> urlMatches rx url g)"
  by (auto simp: getMatchInfo_eq split: if_splits)

text \<open>
  C3. The resolver of \<^verbatim>\<open>background.js\<close> (title-priority policy), for a
  consistent \<^verbatim>\<open>localeCompare\<close>. It returns \<^verbatim>\<open>null\<close> when the
  configuration is disabled and when no group matches the URL or the title.
  Otherwise it returns a configured group \<open>g\<close> that matches, such that
  \<^item> if a pattern of any group matches the title, a pattern of \<open>g\<close> matches the
    title: a group matched by its title outranks every group matched only by
    the URL;
  \<^item> the name of \<open>g\<close> compares less-or-equal to the name of every matching
    group of the same kind (both matched by the title, or both matched only
    by the URL);
  \<^item> the label \<^verbatim>\<open>getMatchInfo\<close> gives \<open>g\<close> says \<^verbatim>\<open>title\<close> exactly when
    a pattern matches the title, and \<^verbatim>\<open>url\<close> exactly when none matches the
    title and one matches the URL.
  The configured priorities play no part: replacing them by any others gives
  the same group (with the replaced priority).
\<close>

theorem findMatchingGroup_title_priority:
  assumes ok: "comparator_ok lc"
  shows "(\<not> enabled cfg \<longrightarrow> findMatchingGroup rx lc cfg url title = None) \<and>
    ((\<forall>g\<in>set (groups cfg). \<not> tabMatchesGroup rx url title g) \<longrightarrow>
       findMatchingGroup rx lc cfg url title = None) \<and>
    (enabled cfg \<and> (\<exists>g\<in>set (groups cfg). tabMatchesGroup rx url title g) \<longrightarrow>
       (\<exists>g m. findMatchingGroup rx lc cfg url title = Some g \<and>
              g \<in> set (groups cfg) \<and>
              tabMatchesGroup rx url title g \<and>
              ((\<exists>g'\<in>set (groups cfg). titleMatches rx title g') \<longrightarrow> titleMatches rx title g) \<and>
              (\<forall>g'\<in>set (groups cfg).
                 tabMatchesGroup rx url title g' \<and>
                 (titleMatches rx title g' \<longleftrightarrow> titleMatches rx title g)
                   \<longrightarrow> lc (name g) (name g') \<le> 0) \<and>
              getMatchInfo rx url title g = Some m \<and>
              (matchType m = TitleMatch \<longleftrightarrow> titleMatches rx title g) \<and>
              (matchType m = UrlMatch \<longleftrightarrow>
                 \<not> titleMatches rx title g \<and> urlMatches rx url g) \<and>
              (\<forall>g'\<in>set (groups cfg). \<forall>m'. getMatchInfo rx url title g' = Some m' \<longrightarrow>
                 (matchType m' = TitleMatch \<longrightarrow> matchType m = TitleMatch) \<and>
                 (matchType m' = matchType m \<longrightarrow> lc (name g) (name g') \<le> 0)))) \<and>
    findMatchingGroup rx lc (cfg\<lparr>groups := map (\<lambda>g. g\<lparr>priority := h g\<rparr>) (groups cfg)\<rparr>) url title
      = map_option (\<lambda>g. g\<lparr>priority := h g\<rparr>) (findMatchingGroup rx lc cfg url title)"
proof -
  note old = findMatchingGroup_least_candidate [OF ok, of cfg rx url title h]
  have some: "\<exists>g m. findMatchingGroup rx lc cfg url title = Some g \<and>
              g \<in> set (groups cfg) \<and>
              tabMatchesGroup rx url title g \<and>
              ((\<exists>g'\<in>set (groups cfg). titleMatches rx title g') \<longrightarrow> titleMatches rx title g) \<and>
              (\<forall>g'\<in>set (groups cfg).
                 tabMatchesGroup rx url title g' \<and>
                 (titleMatches rx title g' \<longleftrightarrow> titleMatches rx title g)
                   \<longrightarrow> lc (name g) (name g') \<le> 0) \<and>
              getMatchInfo rx url title g = Some m \<and>
              (matchType m = TitleMatch \<longleftrightarrow> titleMatches rx title g) \<and>
              (matchType m = UrlMatch \<longleftrightarrow>
                 \<not> titleMatches rx title g \<and> urlMatches rx url g) \<and>
              (\<forall>g'\<in>set (groups cfg). \<forall>m'. getMatchInfo rx url title g' = Some m' \<longrightarrow>
                 (matchType m' = TitleMatch \<longrightarrow> matchType m = TitleMatch) \<and>
                 (matchType m' = matchType m \<longrightarrow> lc (name g) (name g') \<le> 0))"
    if en: "enabled cfg" and ex: "\<exists>g\<in>set (groups cfg). tabMatchesGroup rx url title g"
  proof -
    from old en ex obtain g m where
      res: "findMatchingGroup rx lc cfg url title = Some g" and
      g: "g \<in> set (groups cfg)" and
      m: "getMatchInfo rx url title g = Some m" and
      least: "\<forall>g'\<in>set (groups cfg). \<forall>m'. getMatchInfo rx url title g' = Some m' \<longrightarrow>
                 (matchType m' = TitleMatch \<longrightarrow> matchType m = TitleMatch) \<and>
                 (matchType m' = matchType m \<longrightarrow> lc (name g) (name g') \<le> 0)"
      by blast
    note km = getMatchInfo_kind [OF m]
    from m have tm: "tabMatchesGroup rx url title g"
      using getMatchInfo_None_iff [of rx url title g] by simp
    have t1: "titleMatches rx title g" if "\<exists>g'\<in>set (groups cfg). titleMatches rx title g'"
    proof -
      from that obtain g' where g': "g' \<in> set (groups cfg)" "titleMatches rx title g'" by blast
      then have "getMatchInfo rx url title g' = Some \<lparr>matchGroup = g', matchType = TitleMatch\<rparr>"
        by (simp add: getMatchInfo_eq)
      with least g'(1) have "matchType m = TitleMatch" by fastforce
      with km show ?thesis by simp
    qed
    have t2: "lc (name g) (name g') \<le> 0"
      if g': "g' \<in> set (groups cfg)" and mt: "tabMatchesGroup rx url title g'"
        and same: "titleMatches rx title g' \<longleftrightarrow> titleMatches rx title g" for g'
    proof -
      from mt obtain m' where m': "getMatchInfo rx url title g' = Some m'"
        using getMatchInfo_None_iff [of rx url title g'] by auto
      note km' = getMatchInfo_kind [OF m']
      from km km' same have "matchType m' = matchType m"
        by (cases "matchType m"; cases "matchType m'"; simp)
      with least g' m' show ?thesis by blast
    qed
    from res g tm t1 t2 m km least show ?thesis by blast
  qed
  from old some show ?thesis by blast
qed


theorem findMatchingGroup_title_priority_witness:
  "comparator_ok codeUnitCompare \<and> enabled exResolverConfig \<and>
   urlMatches noRegExp (Some ''http://example.com'')
     \<lparr>name = ''alpha'', patterns = [''example''], priority = 0, mode = Some ''simple''\<rparr> \<and>
   \<not> titleMatches noRegExp (Some ''README'')
     \<lparr>name = ''alpha'', patterns = [''example''], priority = 0, mode = Some ''simple''\<rparr> \<and>
   titleMatches noRegExp (Some ''README'')
     \<lparr>name = ''docs'', patterns = [''readme''], priority = 1, mode = Some ''simple''\<rparr> \<and>
   titleMatches noRegExp (Some ''README'')
     \<lparr>name = ''code'', patterns = [''readme''], priority = 2, mode = Some ''simple''\<rparr> \<and>
   codeUnitCompare ''alpha'' ''code'' < 0 \<and> codeUnitCompare ''code'' ''docs'' < 0 \<and>
   findMatchingGroup noRegExp codeUnitCompare exResolverConfig
       (Some ''http://example.com'') (Some ''README'')
     = Some \<lparr>name = ''code'', patterns = [''readme''], priority = 2, mode = Some ''simple''\<rparr> \<and>
   findMatchingGroup noRegExp codeUnitCompare
       (exResolverConfig\<lparr>groups := map (\<lambda>g. g\<lparr>priority := 7 - priority g\<rparr>)
                                        (groups exResolverConfig)\<rparr>)
       (Some ''http://example.com'') (Some ''README'')
     = Some \<lparr>name = ''code'', patterns = [''readme''], priority = 5, mode = Some ''simple''\<rparr>"
proof -
  let ?alpha = "\<lparr>name = ''alpha'', patterns = [''example''], priority = 0,
                 mode = Some ''simple''\<rparr>"
  have en: "enabled exResolverConfig" by (simp add: exResolverConfig_def)
  have u: "urlMatches noRegExp (Some ''http://example.com'') ?alpha" by code_simp
  have nt: "\<not> titleMatches noRegExp (Some ''README'') ?alpha" by code_simp
  have td: "titleMatches noRegExp (Some ''README'')
     \<lparr>name = ''docs'', patterns = [''readme''], priority = 1, mode = Some ''simple''\<rparr>"
    by code_simp
  have tc: "titleMatches noRegExp (Some ''README'')
     \<lparr>name = ''code'', patterns = [''readme''], priority = 2, mode = Some ''simple''\<rparr>"
    by code_simp
  have c: "codeUnitCompare ''alpha'' ''code'' < 0" "codeUnitCompare ''code'' ''docs'' < 0"
    by code_simp+
  have ex: "\<exists>g\<in>set (groups exResolverConfig).
      tabMatchesGroup noRegExp (Some ''http://example.com'') (Some ''README'') g"
    using u by (auto simp: exResolverConfig_def tabMatchesGroup_iff)
  have v: "findMatchingGroup noRegExp codeUnitCompare exResolverConfig
       (Some ''http://example.com'') (Some ''README'')
     = Some \<lparr>name = ''code'', patterns = [''readme''], priority = 2, mode = Some ''simple''\<rparr>"
    by code_simp
  note inst = findMatchingGroup_title_priority [OF codeUnitCompare_ok, of exResolverConfig noRegExp
      "Some ''http://example.com''" "Some ''README''" "\<lambda>g. 7 - priority g"]
  from inst v have p: "findMatchingGroup noRegExp codeUnitCompare
       (exResolverConfig\<lparr>groups := map (\<lambda>g. g\<lparr>priority := 7 - priority g\<rparr>)
                                        (groups exResolverConfig)\<rparr>)
       (Some ''http://example.com'') (Some ''README'')
     = Some \<lparr>name = ''code'', patterns = [''readme''], priority = 5, mode = Some ''simple''\<rparr>"
    by simp
  from codeUnitCompare_ok en u nt td tc c v p show ?thesis by blast
qed

section \<open>Properties of rebinding\<close>





text \<open>
  A tab whose URL is empty is not looked at, whatever its title
  (\<^verbatim>\<open>tab.url && ...\<close>): the scenario's window stays unbound then.
\<close>

lemma rebind_ignores_tab_without_url:
  "firstMatchingWindow noRegExp
      \<lparr>name = ''3003'', patterns = [''3003''], priority = 0, mode = Some ''simple''\<rparr>
      (windows_getAll exNoUrlState)
     = Some \<lparr>winId = 100, winType = ''normal'',
              winTabs = [\<lparr>tabId = 1, tabWindowId = 100, tabUrl = Some [],
                           tabTitle = Some ''Feature branch - 3003''\<rparr>]\<rparr> \<and>
   stored (rebindWindowsOnStartup noRegExp exFeatureConfig exNoUrlState) = []"
  by code_simp



section \<open>Properties of export and import\<close>

lemma getProp_exportGroup:
  "getProp (exportGroup g) ''name'' = Some (JStr (name g))"
  "getProp (exportGroup g) ''patterns'' = Some (JArr (map JStr (patterns g)))"
  "getProp (exportGroup g) ''mode'' = map_option JStr (mode g)"
  "getProp (exportGroup g) ''priority'' = Some (JNum (priority g))"
  by (simp_all add: getProp_def exportGroup_def split: option.splits)

lemma exportGroup_not_null: "exportGroup g \<noteq> JNull"
  by (simp add: exportGroup_def)

lemma validateGroups_export:
  "\<forall>g\<in>set gs. validGroup g \<Longrightarrow> validateGroups (map exportGroup gs) = Inr ()"
  by (induction gs)
     (simp_all add: getProp_exportGroup exportGroup_not_null jtruthy_def isArray_def validGroup_def)

lemma importGroup_export:
  "validGroup g \<Longrightarrow> importGroup (i, exportGroup g) = toJsGroup g"
  by (auto simp: importGroup_def getProp_exportGroup jtruthy_def toJsGroup_def validGroup_def)

lemma import_enumerate_export:
  "\<forall>g\<in>set gs. validGroup g \<Longrightarrow>
     map importGroup (enumerate n (map exportGroup gs)) = map toJsGroup gs"
  by (induction gs arbitrary: n) (simp_all add: importGroup_export)

text \<open>
  C8. For a configuration whose groups are valid, importing what
  \<^verbatim>\<open>exportConfig\<close> wrote succeeds and builds a group list with, group by group
  and in the same order, the same name, the same patterns, the same mode and
  the same priority as the original. The priorities are reproduced as they
  are, so their order, and their renumbering to ranks, is that of the original.
\<close>

theorem export_import_roundtrip:
  assumes "\<forall>g\<in>set (groups cfg). validGroup g"
  shows "\<exists>r. importConfig (exportConfig cfg) = Inr r \<and>
             jsGroups r = map toJsGroup (groups cfg) \<and>
             map jsName (jsGroups r) = map (\<lambda>g. Some (JStr (name g))) (groups cfg) \<and>
             map jsPatterns (jsGroups r)
               = map (\<lambda>g. Some (JArr (map JStr (patterns g)))) (groups cfg) \<and>
             map jsMode (jsGroups r) = map (\<lambda>g. map_option JStr (mode g)) (groups cfg) \<and>
             map jsPriority (jsGroups r) = map (\<lambda>g. Some (JNum (priority g))) (groups cfg) \<and>
             jsEnabled r = enabled cfg"
proof -
  have g: "getProp (exportConfig cfg) ''groups'' = Some (JArr (map exportGroup (groups cfg)))"
    and e: "getProp (exportConfig cfg) ''enabled'' = Some (JBool (enabled cfg))"
    and n: "exportConfig cfg \<noteq> JNull"
    by (simp_all add: getProp_def exportConfig_def)
  let ?r = "\<lparr>jsEnabled = enabled cfg, jsGroups = map toJsGroup (groups cfg),
             jsCatchAllWindowId =
               (if jtruthy (getProp (exportConfig cfg) ''catchAllWindowId'')
                then (case getProp (exportConfig cfg) ''catchAllWindowId'' of
                        Some v \<Rightarrow> v | None \<Rightarrow> JNull)
                else JNull)\<rparr>"
  have "importConfig (exportConfig cfg) = Inr ?r"
    using assms
    by (simp add: importConfig_def g e n validateGroups_export import_enumerate_export)
  moreover have "map jsName (map toJsGroup gs) = map (\<lambda>g. Some (JStr (name g))) gs"
    "map jsPatterns (map toJsGroup gs) = map (\<lambda>g. Some (JArr (map JStr (patterns g)))) gs"
    "map jsMode (map toJsGroup gs) = map (\<lambda>g. map_option JStr (mode g)) gs"
    "map jsPriority (map toJsGroup gs) = map (\<lambda>g. Some (JNum (priority g))) gs" for gs
    by (simp_all add: toJsGroup_def)
  ultimately show ?thesis by simp
qed

theorem export_import_roundtrip_witness:
  "list_all validGroup (groups exOverlapConfig) \<and>
   (\<exists>r. importConfig (exportConfig exOverlapConfig) = Inr r \<and>
        jsGroups r = map toJsGroup (groups exOverlapConfig) \<and>
        map jsPriority (jsGroups r) = [Some (JNum 0), Some (JNum 1), Some (JNum 2)])"
proof -
  have v: "\<forall>g\<in>set (groups exOverlapConfig). validGroup g"
    by (simp add: exOverlapConfig_def validGroup_def)
  have p: "map (\<lambda>g. Some (JNum (priority g))) (groups exOverlapConfig)
             = [Some (JNum 0), Some (JNum 1), Some (JNum 2)]"
    by (simp add: exOverlapConfig_def)
  from export_import_roundtrip [OF v] p v show ?thesis
    by (auto simp: list_all_iff)
qed

section \<open>Properties of sorting all tabs\<close>

lemma map_of_bdelete: "w \<noteq> k \<Longrightarrow> map_of (bdelete k b) w = map_of b w"
  by (induction b) (auto simp: bdelete_def)

lemma map_of_filter_keys: "w \<notin> D \<Longrightarrow> map_of (filter (\<lambda>e. fst e \<notin> D) b) w = map_of b w"
  by (induction b) auto

lemma findWindowForGroup_loop_state:
  "\<exists>D. D \<inter> fst ` set (liveWindows s) = {} \<and>
       (snd (findWindowForGroup_loop es g b s) = s \<or>
        snd (findWindowForGroup_loop es g b s)
          = saveWindowBindings (filter (\<lambda>e. fst e \<notin> D) b) s)"
proof (induction es g b s rule: findWindowForGroup_loop.induct)
  case (1 g b s)
  then show ?case by auto
next
  case (2 wid boundGroup es g b s)
  show ?case
  proof (cases "boundGroup = g")
    case False
    with 2 show ?thesis by simp
  next
    case True
    show ?thesis
    proof (cases "windows_get s wid")
      case (Inr x)
      with True show ?thesis by auto
    next
      case (Inl e)
      then have dead: "wid \<notin> fst ` set (liveWindows s)"
        using windows_get_Inl_iff by blast
      let ?b = "bdelete wid b"
      let ?s = "saveWindowBindings ?b s"
      let ?r = "snd (findWindowForGroup_loop es g ?b ?s)"
      from "2.IH"(1) [OF True Inl refl]
      obtain D where D: "D \<inter> fst ` set (liveWindows s) = {}"
        and r: "?r = ?s \<or> ?r = saveWindowBindings (filter (\<lambda>e. fst e \<notin> D) ?b) ?s"
        by auto
      have res: "snd (findWindowForGroup_loop ((wid, boundGroup) # es) g b s) = ?r"
        using True Inl by (simp add: Let_def)
      from r show ?thesis
      proof
        assume "?r = ?s"
        moreover have "?b = filter (\<lambda>e. fst e \<notin> {wid}) b"
          by (simp add: bdelete_def)
        ultimately have "?r = saveWindowBindings (filter (\<lambda>e. fst e \<notin> {wid}) b) s"
          by simp
        with dead res show ?thesis by (intro exI [of _ "{wid}"]) simp
      next
        assume a: "?r = saveWindowBindings (filter (\<lambda>e. fst e \<notin> D) ?b) ?s"
        have "filter (\<lambda>e. fst e \<notin> D) ?b = filter (\<lambda>e. fst e \<notin> insert wid D) b"
          by (auto simp: bdelete_def intro: filter_cong)
        with a have "?r = saveWindowBindings (filter (\<lambda>e. fst e \<notin> insert wid D) b) s"
          by simp
        with dead D res show ?thesis by (intro exI [of _ "insert wid D"]) simp
      qed
    qed
  qed
qed

lemma findWindowForGroup_loop_lookup:
  assumes "w \<in> fst ` set (liveWindows s)"
  shows "map_of (stored (snd (findWindowForGroup_loop es g (stored s) s))) w = map_of (stored s) w"
proof -
  from findWindowForGroup_loop_state [of s es g "stored s"]
  obtain D where D: "D \<inter> fst ` set (liveWindows s) = {}"
    and r: "snd (findWindowForGroup_loop es g (stored s) s) = s \<or>
            snd (findWindowForGroup_loop es g (stored s) s)
              = saveWindowBindings (filter (\<lambda>e. fst e \<notin> D) (stored s)) s"
    by auto
  from D assms have "w \<notin> D" by auto
  with r show ?thesis by (auto simp: map_of_filter_keys)
qed

lemma findWindowForGroup_loop_Some:
  "fst (findWindowForGroup_loop es g b s) = Some w \<Longrightarrow> w \<in> fst ` set (liveWindows s)"
proof (induction es g b s rule: findWindowForGroup_loop.induct)
  case (1 g b s)
  then show ?case by simp
next
  case (2 wid boundGroup es g b s)
  show ?case
  proof (cases "boundGroup = g")
    case False
    with 2 show ?thesis by simp
  next
    case True
    show ?thesis
    proof (cases "windows_get s wid")
      case (Inr x)
      then have "wid \<in> fst ` set (liveWindows s)"
        using windows_get_Inr_iff by blast
      with True Inr "2.prems" show ?thesis by simp
    next
      case (Inl e)
      with True "2.prems" "2.IH"(1) [OF True Inl refl] show ?thesis
        by (simp add: Let_def)
    qed
  qed
qed

lemma findWindowForGroup_live [simp]:
  "liveWindows (snd (findWindowForGroup g s)) = liveWindows s"
  "liveTabs (snd (findWindowForGroup g s)) = liveTabs s"
  by (simp_all add: findWindowForGroup_def Let_def)

lemma findWindowForGroup_lookup:
  "w \<in> fst ` set (liveWindows s) \<Longrightarrow>
     blookup (stored (snd (findWindowForGroup g s))) w = blookup (stored s) w"
  by (simp add: findWindowForGroup_def getWindowBindings_def Let_def blookup_def
        findWindowForGroup_loop_lookup)

lemma findWindowForGroup_Some:
  "fst (findWindowForGroup g s) = Some w \<Longrightarrow> w \<in> fst ` set (liveWindows s)"
  by (simp add: findWindowForGroup_def Let_def findWindowForGroup_loop_Some)

lemma windows_getAll_findWindowForGroup [simp]:
  "windows_getAll (snd (findWindowForGroup g s)) = windows_getAll s"
  by (simp add: windows_getAll_def)

lemma winId_getAll: "w \<in> set (windows_getAll s) \<Longrightarrow> winId w \<in> fst ` set (liveWindows s)"
  by (force simp: windows_getAll_def)

lemma tab_in_getAll:
  "w \<in> set (windows_getAll s) \<Longrightarrow> t \<in> set (winTabs w) \<Longrightarrow>
     t \<in> set (liveTabs s) \<and> tabWindowId t = winId w"
  by (auto simp: windows_getAll_def)

lemma shouldMove_cong:
  "blookup b (winId w) = blookup b' (winId w) \<Longrightarrow>
     shouldMove rx cfg b g w t = shouldMove rx cfg b' g w t"
  by (simp add: shouldMove_def)

lemma collectTabsToMove_cong:
  "(\<And>w. w \<in> set ws \<Longrightarrow> blookup b (winId w) = blookup b' (winId w)) \<Longrightarrow>
     collectTabsToMove rx cfg b g ws = collectTabsToMove rx cfg b' g ws"
proof -
  assume a: "\<And>w. w \<in> set ws \<Longrightarrow> blookup b (winId w) = blookup b' (winId w)"
  have "filter (shouldMove rx cfg b g w) (winTabs w) = filter (shouldMove rx cfg b' g w) (winTabs w)"
    if "w \<in> set ws" for w
    using shouldMove_cong [OF a [OF that]] by (intro filter_cong) auto
  then show ?thesis
    unfolding collectTabsToMove_def
    by (intro arg_cong [where f = concat] map_cong) auto
qed

lemma collect_mem:
  "c \<in> set (collectTabsToMove rx cfg b g ws) \<Longrightarrow>
     \<exists>w\<in>set ws. winType w = ''normal'' \<and> fst c \<in> set (winTabs w) \<and> snd c = winId w \<and>
        shouldMove rx cfg b g w (fst c)"
  by (auto simp: collectTabsToMove_def split: if_splits)

lemma settled_findWindowForGroup:
  "settled rx cfg s \<Longrightarrow> settled rx cfg (snd (findWindowForGroup g s))"
proof -
  have "collectTabsToMove rx cfg (stored (snd (findWindowForGroup g s))) g' (windows_getAll s)
      = collectTabsToMove rx cfg (stored s) g' (windows_getAll s)" for g'
    by (rule collectTabsToMove_cong) (simp add: findWindowForGroup_lookup winId_getAll)
  then show "settled rx cfg s \<Longrightarrow> settled rx cfg (snd (findWindowForGroup g s))"
    by (simp add: settled_def)
qed

lemma tabs_move_Inr:
  "tabs_move tid w s = Inr s' \<Longrightarrow>
     liveWindows s' = liveWindows s \<and> stored s' = stored s \<and> mirror s' = mirror s \<and>
     (\<exists>t. find (\<lambda>t. tabId t = tid) (liveTabs s) = Some t \<and>
          liveTabs s' = filter (\<lambda>t'. tabId t' \<noteq> tid) (liveTabs s) @ [t\<lparr>tabWindowId := w\<rparr>])"
  by (auto simp: tabs_move_def split: option.splits)

lemma processGroup_settled:
  assumes "settled rx cfg (passState p)" and "g \<in> set (groups cfg)"
  shows "processGroup rx cfg g p
           = p\<lparr>passState := snd (findWindowForGroup (name g) (passState p)),
               trace := trace p @ [Processing (name g)]\<rparr>"
proof -
  from assms have "collectTabsToMove rx cfg (stored (passState p)) g
                     (windows_getAll (passState p)) = []"
    by (simp add: settled_def list_all_iff)
  then show ?thesis
    by (simp add: processGroup_def getWindowBindings_def Let_def split_def)
qed

lemma movesOf_append [simp]: "movesOf (xs @ ys) = movesOf xs @ movesOf ys"
  by (induction xs rule: movesOf.induct) simp_all

lemma movesOf_Processing [simp]: "movesOf (map (\<lambda>g. Processing (f g)) gs) = []"
  by (induction gs) simp_all

lemma sortAllTabs_loop_settled:
  assumes "settled rx cfg (passState p)" and "set gs \<subseteq> set (groups cfg)"
  shows "movedCount (sortAllTabs_loop rx cfg gs p) = movedCount p \<and>
         errors (sortAllTabs_loop rx cfg gs p) = errors p \<and>
         liveTabs (passState (sortAllTabs_loop rx cfg gs p)) = liveTabs (passState p) \<and>
         liveWindows (passState (sortAllTabs_loop rx cfg gs p)) = liveWindows (passState p) \<and>
         trace (sortAllTabs_loop rx cfg gs p) = trace p @ map (\<lambda>g. Processing (name g)) gs"
  using assms
proof (induction gs arbitrary: p)
  case Nil
  then show ?case by simp
next
  case (Cons g gs)
  let ?p = "p\<lparr>passState := snd (findWindowForGroup (name g) (passState p)),
               trace := trace p @ [Processing (name g)]\<rparr>"
  from Cons.prems have pg: "processGroup rx cfg g p = ?p"
    by (simp add: processGroup_settled)
  from Cons.prems have "settled rx cfg (passState ?p)"
    by (simp add: settled_findWindowForGroup)
  from Cons.IH [OF this] Cons.prems(2) pg show ?case by simp
qed

lemma settled_pass_moves_nothing:
  assumes "settled rx cfg s"
  shows "movedCount (sortAllTabs rx cfg s) = 0 \<and> errors (sortAllTabs rx cfg s) = [] \<and>
         liveTabs (passState (sortAllTabs rx cfg s)) = liveTabs s \<and>
         liveWindows (passState (sortAllTabs rx cfg s)) = liveWindows s \<and>
         movesOf (trace (sortAllTabs rx cfg s)) = []"
proof (cases "\<not> enabled cfg \<or> groups cfg = []")
  case True
  then show ?thesis by (simp add: sortAllTabs_def)
next
  case False
  let ?p = "\<lparr>passState = s, movedCount = 0, errors = [], trace = []\<rparr>"
  have "settled rx cfg (passState ?p)" using assms by simp
  from sortAllTabs_loop_settled [OF this, of "sort_key priority (groups cfg)"] False
  show ?thesis by (simp add: sortAllTabs_def)
qed

lemma find_by_name:
  "distinct (map name gs) \<Longrightarrow> g \<in> set gs \<Longrightarrow> find (\<lambda>x. name x = name g) gs = Some g"
  by (induction gs) (auto simp: image_iff)

lemma owned_iff:
  assumes "distinct (map name (groups cfg))" and "g' \<in> set (groups cfg)"
  shows "ownedByHigherPriority cfg (Some (name g')) g
           \<longleftrightarrow> name g' \<noteq> [] \<and> priority g' < priority g"
  using find_by_name [OF assms] by (simp add: ownedByHigherPriority_def)

lemma heldBy_findWindowForGroup:
  "heldBy t n s \<Longrightarrow> heldBy t n (snd (findWindowForGroup g s))"
  by (simp add: heldBy_def findWindowForGroup_lookup)

lemma heldBy_tabs_move:
  assumes h: "heldBy t n s" and ne: "tid \<noteq> tabId t" and mv: "tabs_move tid w s = Inr s'"
  shows "heldBy t n s'"
proof -
  from tabs_move_Inr [OF mv] obtain x where
    s': "liveWindows s' = liveWindows s" "stored s' = stored s"
    and x: "find (\<lambda>t. tabId t = tid) (liveTabs s) = Some x"
    and lt: "liveTabs s' = filter (\<lambda>t'. tabId t' \<noteq> tid) (liveTabs s) @ [x\<lparr>tabWindowId := w\<rparr>]"
    by auto
  from x have "tabId x = tid" by (auto dest: find_SomeD)
  with h ne s' lt show ?thesis
    by (auto simp: heldBy_def list_all_iff)
qed

lemma held_tab_not_collected:
  assumes dn: "distinct (map name (groups cfg))"
    and g1: "g1 \<in> set (groups cfg)" "name g1 \<noteq> []"
    and h: "heldBy t (name g1) s"
    and pr: "\<forall>g\<in>set (groups cfg). g \<noteq> g1 \<and> tabMatchesGroup rx (tabUrl t) (tabTitle t) g
               \<longrightarrow> priority g1 < priority g"
    and g: "g \<in> set (groups cfg)"
    and c: "c \<in> set (collectTabsToMove rx cfg (stored s) g (windows_getAll s))"
  shows "tabId (fst c) \<noteq> tabId t"
proof
  assume eq: "tabId (fst c) = tabId t"
  from collect_mem [OF c] obtain w where w: "w \<in> set (windows_getAll s)"
    "fst c \<in> set (winTabs w)" "shouldMove rx cfg (stored s) g w (fst c)"
    by blast
  from tab_in_getAll [OF w(1,2)] have ft: "fst c \<in> set (liveTabs s)" "tabWindowId (fst c) = winId w"
    by auto
  from h ft(1) eq have "fst c = t" by (auto simp: heldBy_def list_all_iff)
  with ft(2) h have bl: "blookup (stored s) (winId w) = Some (name g1)"
    by (simp add: heldBy_def)
  from w(3) bl \<open>fst c = t\<close> have m: "tabMatchesGroup rx (tabUrl t) (tabTitle t) g"
    and nn: "name g1 \<noteq> name g" and no: "\<not> ownedByHigherPriority cfg (Some (name g1)) g"
    by (auto simp: shouldMove_def Let_def)
  from nn have "g \<noteq> g1" by auto
  with pr g m have "priority g1 < priority g" by blast
  with owned_iff [OF dn g1(1)] g1(2) no show False by simp
qed

lemma attemptMove_cases:
  obtains (skip) "attemptMove gn c p
      = p\<lparr>trace := trace p @ [Attempt gn (tabId (fst c))],
          passState := snd (findWindowForGroup gn (passState p))\<rparr>"
  | (moved) tw s2 where
      "tabs_move (tabId (fst c)) tw (snd (findWindowForGroup gn (passState p))) = Inr s2"
      "attemptMove gn c p
         = p\<lparr>trace := trace p @ [Attempt gn (tabId (fst c)), TabsMove gn (tabId (fst c)) tw,
                                    Moved gn (tabId (fst c))],
             passState := s2, movedCount := movedCount p + 1\<rparr>"
  | (failed) tw e where
      "tabs_move (tabId (fst c)) tw (snd (findWindowForGroup gn (passState p))) = Inl e"
      "attemptMove gn c p
         = p\<lparr>trace := trace p @ [Attempt gn (tabId (fst c)), TabsMove gn (tabId (fst c)) tw],
             passState := snd (findWindowForGroup gn (passState p)),
             errors := errors p @ [moveFailure (fst c) e]\<rparr>"
proof -
  obtain tab src where c: "c = (tab, src)" by (cases c)
  obtain tw s1 where f: "findWindowForGroup gn (passState p) = (tw, s1)"
    by (cases "findWindowForGroup gn (passState p)")
  show thesis
  proof (cases "tabs_get s1 (tabId tab)")
    case (Inl e)
    then show thesis by (intro skip) (simp add: attemptMove_def c f)
  next
    case (Inr cur)
    show thesis
    proof (cases tw)
      case None
      with Inr show thesis by (intro skip) (simp add: attemptMove_def c f)
    next
      case (Some w)
      show thesis
      proof (cases "w \<noteq> 0 \<and> w \<noteq> tabWindowId cur")
        case False
        with Inr Some show thesis by (intro skip) (auto simp: attemptMove_def c f)
      next
        case True
        show thesis
        proof (cases "tabs_move (tabId tab) w s1")
          case (Inl e)
          with Inr Some True show thesis
            by (intro failed [of w e]) (auto simp: attemptMove_def c f)
        next
          case (Inr s2)
          with \<open>tabs_get s1 (tabId tab) = Inr cur\<close> Some True show thesis
            by (intro moved [of w s2]) (auto simp: attemptMove_def c f)
        qed
      qed
    qed
  qed
qed

lemma attemptMove_heldBy:
  assumes ne: "tabId (fst c) \<noteq> tabId t"
    and h: "heldBy t n (passState p)"
    and tr: "tabId t \<notin> fst ` set (movesOf (trace p))"
  shows "heldBy t n (passState (attemptMove gn c p)) \<and>
         tabId t \<notin> fst ` set (movesOf (trace (attemptMove gn c p)))"
proof (cases gn c p rule: attemptMove_cases)
  case skip
  with h tr show ?thesis by (simp add: heldBy_findWindowForGroup)
next
  case (moved tw s2)
  from heldBy_tabs_move [OF heldBy_findWindowForGroup [OF h] ne moved(1)]
  have "heldBy t n s2" .
  with moved(2) tr ne show ?thesis by simp
next
  case (failed tw e)
  with h tr ne show ?thesis by (simp add: heldBy_findWindowForGroup)
qed

lemma processMoves_heldBy:
  assumes "\<forall>c\<in>set cs. tabId (fst c) \<noteq> tabId t"
    and "heldBy t n (passState p)"
    and "tabId t \<notin> fst ` set (movesOf (trace p))"
  shows "heldBy t n (passState (processMoves gn cs p)) \<and>
         tabId t \<notin> fst ` set (movesOf (trace (processMoves gn cs p)))"
  using assms
proof (induction cs arbitrary: p)
  case Nil
  then show ?case by simp
next
  case (Cons c cs)
  from Cons.prems have ne: "tabId (fst c) \<noteq> tabId t" and rest: "\<forall>c\<in>set cs. tabId (fst c) \<noteq> tabId t"
    by auto
  from attemptMove_heldBy [OF ne Cons.prems(2,3)]
  have "heldBy t n (passState (attemptMove gn c p))"
    "tabId t \<notin> fst ` set (movesOf (trace (attemptMove gn c p)))" by auto
  from Cons.IH [OF rest this] show ?case by simp
qed

lemma movesOf_WillMove [simp]: "movesOf (map (\<lambda>c. WillMove n (f c)) cs) = []"
  by (induction cs) simp_all

lemma processGroup_heldBy:
  assumes dn: "distinct (map name (groups cfg))"
    and g1: "g1 \<in> set (groups cfg)" "name g1 \<noteq> []"
    and pr: "\<forall>g\<in>set (groups cfg). g \<noteq> g1 \<and> tabMatchesGroup rx (tabUrl t) (tabTitle t) g
               \<longrightarrow> priority g1 < priority g"
    and g: "g \<in> set (groups cfg)"
    and h: "heldBy t (name g1) (passState p)"
    and tr: "tabId t \<notin> fst ` set (movesOf (trace p))"
  shows "heldBy t (name g1) (passState (processGroup rx cfg g p)) \<and>
         tabId t \<notin> fst ` set (movesOf (trace (processGroup rx cfg g p)))"
proof -
  let ?cs = "collectTabsToMove rx cfg (stored (passState p)) g (windows_getAll (passState p))"
  let ?p = "p\<lparr>passState := snd (findWindowForGroup (name g) (passState p)),
              trace := trace p @ Processing (name g)
                         # map (\<lambda>c. WillMove (name g) (tabId (fst c))) ?cs\<rparr>"
  have pg: "processGroup rx cfg g p = processMoves (name g) ?cs ?p"
    by (simp add: processGroup_def getWindowBindings_def Let_def split_def)
  have ex: "\<forall>c\<in>set ?cs. tabId (fst c) \<noteq> tabId t"
    using held_tab_not_collected [OF dn g1 h pr g] by blast
  have h': "heldBy t (name g1) (passState ?p)"
    using h by (simp add: heldBy_findWindowForGroup)
  have tr': "tabId t \<notin> fst ` set (movesOf (trace ?p))"
    using tr by simp
  from processMoves_heldBy [OF ex h' tr'] pg show ?thesis by simp
qed

lemma sortAllTabs_loop_heldBy:
  assumes dn: "distinct (map name (groups cfg))"
    and g1: "g1 \<in> set (groups cfg)" "name g1 \<noteq> []"
    and pr: "\<forall>g\<in>set (groups cfg). g \<noteq> g1 \<and> tabMatchesGroup rx (tabUrl t) (tabTitle t) g
               \<longrightarrow> priority g1 < priority g"
  shows "set gs \<subseteq> set (groups cfg) \<Longrightarrow> heldBy t (name g1) (passState p) \<Longrightarrow>
         tabId t \<notin> fst ` set (movesOf (trace p)) \<Longrightarrow>
         heldBy t (name g1) (passState (sortAllTabs_loop rx cfg gs p)) \<and>
         tabId t \<notin> fst ` set (movesOf (trace (sortAllTabs_loop rx cfg gs p)))"
proof (induction gs arbitrary: p)
  case Nil
  then show ?case by simp
next
  case (Cons g gs)
  from Cons.prems(1) have g: "g \<in> set (groups cfg)" and gs: "set gs \<subseteq> set (groups cfg)"
    by auto
  from processGroup_heldBy [OF dn g1 pr g Cons.prems(2,3)]
  have "heldBy t (name g1) (passState (processGroup rx cfg g p))"
    "tabId t \<notin> fst ` set (movesOf (trace (processGroup rx cfg g p)))" by auto
  from Cons.IH [OF gs this] show ?case by simp
qed

text \<open>
  C2, as stated, fails when a third group comes before both: with ``mail''
  (priority 0) bound to window 200, ``X'' (priority 1) bound to window 100 and
  ``Y'' (priority 2), the tab in window 100 matches ``X'' and ``Y'' and also
  ``mail'', and the pass moves it to window 200.
\<close>

theorem sortAllTabs_priority_ownership_counterexample:
  "priority (groups exThreeGroupsConfig ! 1) < priority (groups exThreeGroupsConfig ! 2) \<and>
   tabMatchesGroup noRegExp (tabUrl exInboxTab) (tabTitle exInboxTab) (groups exThreeGroupsConfig ! 1) \<and>
   tabMatchesGroup noRegExp (tabUrl exInboxTab) (tabTitle exInboxTab) (groups exThreeGroupsConfig ! 2) \<and>
   heldBy exInboxTab (name (groups exThreeGroupsConfig ! 1)) exThreeGroupsState \<and>
   movesOf (trace (sortAllTabs noRegExp exThreeGroupsConfig exThreeGroupsState)) = [(1, 200)] \<and>
   movedCount (sortAllTabs noRegExp exThreeGroupsConfig exThreeGroupsState) = 1"
  by code_simp

text \<open>
  C2, amended. In a configuration whose group names are distinct, let \<open>g1\<close> be
  a group with a non-empty name and \<open>t\<close> a tab that sits in a live window
  bound to \<open>g1\<close>. If every other group that \<open>t\<close> matches has a priority number
  strictly greater than that of \<open>g1\<close>, then a \<^verbatim>\<open>sortAllTabs\<close> pass never
  calls \<^verbatim>\<open>chrome.tabs.move\<close> for \<open>t\<close>, and after the pass \<open>t\<close> still sits in
  the same window, still bound to \<open>g1\<close>. If moreover \<open>t\<close> is the only tab
  with a non-internal URL that matches any group, the pass reports
  \<^verbatim>\<open>moved = 0\<close>.
\<close>

theorem sortAllTabs_priority_ownership:
  assumes dn: "distinct (map name (groups cfg))"
    and g1: "g1 \<in> set (groups cfg)" "name g1 \<noteq> []"
    and h: "heldBy t (name g1) s"
    and pr: "\<forall>g\<in>set (groups cfg). g \<noteq> g1 \<and> tabMatchesGroup rx (tabUrl t) (tabTitle t) g
               \<longrightarrow> priority g1 < priority g"
  shows "heldBy t (name g1) (passState (sortAllTabs rx cfg s)) \<and>
         tabId t \<notin> fst ` set (movesOf (trace (sortAllTabs rx cfg s))) \<and>
         ((\<forall>t'\<in>set (liveTabs s). \<forall>g\<in>set (groups cfg).
              \<not> internalUrl (tabUrl t') \<and> tabMatchesGroup rx (tabUrl t') (tabTitle t') g
                \<longrightarrow> t' = t)
          \<longrightarrow> movedCount (sortAllTabs rx cfg s) = 0)"
proof -
  let ?p = "\<lparr>passState = s, movedCount = 0, errors = [], trace = []\<rparr>"
  have a: "heldBy t (name g1) (passState (sortAllTabs rx cfg s)) \<and>
         tabId t \<notin> fst ` set (movesOf (trace (sortAllTabs rx cfg s)))"
  proof (cases "\<not> enabled cfg \<or> groups cfg = []")
    case True
    with h show ?thesis by (simp add: sortAllTabs_def)
  next
    case False
    have "heldBy t (name g1) (passState ?p)" "tabId t \<notin> fst ` set (movesOf (trace ?p))"
      using h by simp_all
    from sortAllTabs_loop_heldBy [OF dn g1 pr _ this, of "sort_key priority (groups cfg)"] False
    show ?thesis by (simp add: sortAllTabs_def)
  qed
  have b: "movedCount (sortAllTabs rx cfg s) = 0"
    if only: "\<forall>t'\<in>set (liveTabs s). \<forall>g\<in>set (groups cfg).
              \<not> internalUrl (tabUrl t') \<and> tabMatchesGroup rx (tabUrl t') (tabTitle t') g
                \<longrightarrow> t' = t"
  proof -
    have "collectTabsToMove rx cfg (stored s) g (windows_getAll s) = []"
      if g: "g \<in> set (groups cfg)" for g
    proof (rule ccontr)
      assume "collectTabsToMove rx cfg (stored s) g (windows_getAll s) \<noteq> []"
      then obtain c where c: "c \<in> set (collectTabsToMove rx cfg (stored s) g (windows_getAll s))"
        by (meson last_in_set)
      from collect_mem [OF c] obtain w where w: "w \<in> set (windows_getAll s)"
        "fst c \<in> set (winTabs w)" "shouldMove rx cfg (stored s) g w (fst c)"
        by blast
      from tab_in_getAll [OF w(1,2)] have "fst c \<in> set (liveTabs s)" by simp
      moreover from w(3) have "\<not> internalUrl (tabUrl (fst c))"
        "tabMatchesGroup rx (tabUrl (fst c)) (tabTitle (fst c)) g"
        by (simp_all add: shouldMove_def)
      ultimately have "fst c = t" using only g by blast
      with held_tab_not_collected [OF dn g1 h pr g c] show False by simp
    qed
    then have "settled rx cfg s" by (simp add: settled_def list_all_iff)
    then show ?thesis by (simp add: settled_pass_moves_nothing)
  qed
  from a b show ?thesis by blast
qed

theorem sortAllTabs_priority_ownership_witness:
  "distinct (map name (groups exOwnerConfig)) \<and> heldBy exOwnedTab ''X'' exOwnerState \<and>
   tabMatchesGroup noRegExp (tabUrl exOwnedTab) (tabTitle exOwnedTab) (groups exOwnerConfig ! 0) \<and>
   tabMatchesGroup noRegExp (tabUrl exOwnedTab) (tabTitle exOwnedTab) (groups exOwnerConfig ! 1) \<and>
   heldBy exOwnedTab ''X'' (passState (sortAllTabs noRegExp exOwnerConfig exOwnerState)) \<and>
   tabId exOwnedTab \<notin> fst ` set (movesOf (trace (sortAllTabs noRegExp exOwnerConfig exOwnerState))) \<and>
   movedCount (sortAllTabs noRegExp exOwnerConfig exOwnerState) = 0"
proof -
  let ?g1 = "\<lparr>name = ''X'', patterns = [''foo''], priority = 0, mode = Some ''simple''\<rparr>"
  have dn: "distinct (map name (groups exOwnerConfig))" by (simp add: exOwnerConfig_def)
  have g1: "?g1 \<in> set (groups exOwnerConfig)" "name ?g1 \<noteq> []" by (simp_all add: exOwnerConfig_def)
  have h: "heldBy exOwnedTab (name ?g1) exOwnerState" by code_simp
  have pr: "\<forall>g\<in>set (groups exOwnerConfig).
      g \<noteq> ?g1 \<and> tabMatchesGroup noRegExp (tabUrl exOwnedTab) (tabTitle exOwnedTab) g
        \<longrightarrow> priority ?g1 < priority g"
    by (simp add: exOwnerConfig_def)
  have only: "\<forall>t'\<in>set (liveTabs exOwnerState). \<forall>g\<in>set (groups exOwnerConfig).
      \<not> internalUrl (tabUrl t') \<and> tabMatchesGroup noRegExp (tabUrl t') (tabTitle t') g
        \<longrightarrow> t' = exOwnedTab"
    by (simp add: exOwnerState_def)
  have m: "tabMatchesGroup noRegExp (tabUrl exOwnedTab) (tabTitle exOwnedTab) (groups exOwnerConfig ! 0)"
    "tabMatchesGroup noRegExp (tabUrl exOwnedTab) (tabTitle exOwnedTab) (groups exOwnerConfig ! 1)"
    by code_simp+
  from sortAllTabs_priority_ownership [OF dn g1 h pr] only h m dn
  show ?thesis by simp
qed

text \<open>
  C5, as stated, fails: the resolver puts a title match before a URL match,
  the pass goes by priority number. The tab below resolves to ``Y'' (by its
  title) and sits in the window bound to ``Y'', yet the pass moves it to the
  window of ``X'', which it matches by its URL.
\<close>

theorem sortAllTabs_in_place_counterexample:
  "resolvedInPlace noRegExp codeUnitCompare exTitleConfig exTitleState \<and>
   movedCount (sortAllTabs noRegExp exTitleConfig exTitleState) = 1 \<and>
   movesOf (trace (sortAllTabs noRegExp exTitleConfig exTitleState)) = [(1, 100)]"
  by code_simp

text \<open>
  C5, amended. In a configuration whose group names are distinct, if every tab
  with a non-internal URL sits, for each group it matches (by URL or title), in
  a window bound to that group or to a configured group with a non-empty name
  and a strictly smaller priority number, then \<^verbatim>\<open>sortAllTabs\<close> calls
  \<^verbatim>\<open>chrome.tabs.move\<close> for no tab, leaves the tabs as they are and returns
  \<^verbatim>\<open>moved = 0\<close> with no errors.
\<close>

theorem sortAllTabs_settled_no_moves:
  assumes dn: "distinct (map name (groups cfg))"
    and ip: "\<forall>t\<in>set (liveTabs s). \<forall>g\<in>set (groups cfg).
               \<not> internalUrl (tabUrl t) \<and> tabMatchesGroup rx (tabUrl t) (tabTitle t) g \<longrightarrow>
               (\<exists>g'\<in>set (groups cfg).
                   blookup (stored s) (tabWindowId t) = Some (name g') \<and>
                   (g' = g \<or> (name g' \<noteq> [] \<and> priority g' < priority g)))"
  shows "movedCount (sortAllTabs rx cfg s) = 0 \<and> errors (sortAllTabs rx cfg s) = [] \<and>
         movesOf (trace (sortAllTabs rx cfg s)) = [] \<and>
         liveTabs (passState (sortAllTabs rx cfg s)) = liveTabs s"
proof -
  have "collectTabsToMove rx cfg (stored s) g (windows_getAll s) = []"
    if g: "g \<in> set (groups cfg)" for g
  proof (rule ccontr)
    assume "collectTabsToMove rx cfg (stored s) g (windows_getAll s) \<noteq> []"
    then obtain c where c: "c \<in> set (collectTabsToMove rx cfg (stored s) g (windows_getAll s))"
      by (meson last_in_set)
    from collect_mem [OF c] obtain w where w: "w \<in> set (windows_getAll s)"
      "fst c \<in> set (winTabs w)" "shouldMove rx cfg (stored s) g w (fst c)"
      by blast
    from tab_in_getAll [OF w(1,2)] have ft: "fst c \<in> set (liveTabs s)"
      "tabWindowId (fst c) = winId w" by simp_all
    from w(3) have sm: "\<not> internalUrl (tabUrl (fst c))"
      "tabMatchesGroup rx (tabUrl (fst c)) (tabTitle (fst c)) g"
      "blookup (stored s) (winId w) \<noteq> Some (name g)"
      "\<not> ownedByHigherPriority cfg (blookup (stored s) (winId w)) g"
      by (simp_all add: shouldMove_def Let_def)
    from ip ft(1) g sm(1,2) obtain g' where g': "g' \<in> set (groups cfg)"
      "blookup (stored s) (tabWindowId (fst c)) = Some (name g')"
      "g' = g \<or> (name g' \<noteq> [] \<and> priority g' < priority g)"
      by blast
    from g'(2,3) ft(2) sm(3) have "name g' \<noteq> [] \<and> priority g' < priority g" by auto
    with owned_iff [OF dn g'(1), of g] g'(2) ft(2) sm(4) show False by simp
  qed
  then have "settled rx cfg s" by (simp add: settled_def list_all_iff)
  then show ?thesis by (simp add: settled_pass_moves_nothing)
qed

theorem sortAllTabs_settled_no_moves_witness:
  "distinct (map name (groups exPortsConfig)) \<and>
   movedCount (sortAllTabs noRegExp exPortsConfig exPortsState) = 0 \<and>
   movesOf (trace (sortAllTabs noRegExp exPortsConfig exPortsState)) = [] \<and>
   liveTabs (passState (sortAllTabs noRegExp exPortsConfig exPortsState)) = liveTabs exPortsState"
proof -
  have dn: "distinct (map name (groups exPortsConfig))" by (simp add: exPortsConfig_def)
  have ip: "\<forall>t\<in>set (liveTabs exPortsState). \<forall>g\<in>set (groups exPortsConfig).
               \<not> internalUrl (tabUrl t) \<and> tabMatchesGroup noRegExp (tabUrl t) (tabTitle t) g \<longrightarrow>
               (\<exists>g'\<in>set (groups exPortsConfig).
                   blookup (stored exPortsState) (tabWindowId t) = Some (name g') \<and>
                   (g' = g \<or> (name g' \<noteq> [] \<and> priority g' < priority g)))"
    by code_simp
  from sortAllTabs_settled_no_moves [OF dn ip] dn show ?thesis by simp
qed

lemma attemptsOf_append [simp]: "attemptsOf (xs @ ys) = attemptsOf xs @ attemptsOf ys"
  by (induction xs rule: attemptsOf.induct) simp_all

lemma attemptMove_trace:
  "\<exists>evs. trace (attemptMove gn c p) = trace p @ Attempt gn (tabId (fst c)) # evs \<and>
         list_all (isMoveEvent gn) evs \<and> attemptsOf evs = []"
  by (cases gn c p rule: attemptMove_cases) simp_all

lemma processMoves_trace:
  "\<exists>evs. trace (processMoves gn cs p) = trace p @ evs \<and>
         list_all (isMoveEvent gn) evs \<and> attemptsOf evs = map (\<lambda>c. tabId (fst c)) cs"
proof (induction cs arbitrary: p)
  case Nil
  then show ?case by simp
next
  case (Cons c cs)
  from attemptMove_trace [of gn c p] obtain e1 where
    e1: "trace (attemptMove gn c p) = trace p @ Attempt gn (tabId (fst c)) # e1"
      "list_all (isMoveEvent gn) e1" "attemptsOf e1 = []" by blast
  from Cons.IH [of "attemptMove gn c p"] obtain e2 where
    e2: "trace (processMoves gn cs (attemptMove gn c p)) = trace (attemptMove gn c p) @ e2"
      "list_all (isMoveEvent gn) e2" "attemptsOf e2 = map (\<lambda>c. tabId (fst c)) cs" by blast
  let ?evs = "Attempt gn (tabId (fst c)) # e1 @ e2"
  have "trace (processMoves gn (c # cs) p) = trace p @ ?evs"
    using e1(1) e2(1) by simp
  moreover have "list_all (isMoveEvent gn) ?evs"
    using e1(2) e2(2) by simp
  moreover have "attemptsOf ?evs = map (\<lambda>c. tabId (fst c)) (c # cs)"
    using e1(3) e2(3) by simp
  ultimately show ?case by blast
qed

lemma processGroup_trace:
  "\<exists>b. trace (processGroup rx cfg g p) = trace p @ b \<and> groupBlock (name g) b"
proof -
  let ?cs = "collectTabsToMove rx cfg (stored (passState p)) g (windows_getAll (passState p))"
  let ?p = "p\<lparr>passState := snd (findWindowForGroup (name g) (passState p)),
              trace := trace p @ Processing (name g)
                         # map (\<lambda>c. WillMove (name g) (tabId (fst c))) ?cs\<rparr>"
  have pg: "processGroup rx cfg g p = processMoves (name g) ?cs ?p"
    by (simp add: processGroup_def getWindowBindings_def Let_def split_def)
  from processMoves_trace [of "name g" ?cs ?p] obtain evs where
    evs: "trace (processMoves (name g) ?cs ?p) = trace ?p @ evs"
      "list_all (isMoveEvent (name g)) evs" "attemptsOf evs = map (\<lambda>c. tabId (fst c)) ?cs"
    by blast
  let ?b = "Processing (name g) # map (WillMove (name g)) (map (\<lambda>c. tabId (fst c)) ?cs) @ evs"
  have "trace (processGroup rx cfg g p) = trace p @ ?b"
    using pg evs(1) by (simp add: comp_def)
  moreover have "groupBlock (name g) ?b"
    unfolding groupBlock_def using evs(2,3) by blast
  ultimately show ?thesis by blast
qed

lemma sortAllTabs_loop_trace:
  "\<exists>blocks. trace (sortAllTabs_loop rx cfg gs p) = trace p @ concat blocks \<and>
            list_all2 (\<lambda>g b. groupBlock (name g) b) gs blocks"
proof (induction gs arbitrary: p)
  case Nil
  then show ?case by simp
next
  case (Cons g gs)
  from processGroup_trace [of rx cfg g p] obtain b where
    b: "trace (processGroup rx cfg g p) = trace p @ b" "groupBlock (name g) b" by blast
  from Cons.IH [of "processGroup rx cfg g p"] obtain bs where
    bs: "trace (sortAllTabs_loop rx cfg gs (processGroup rx cfg g p))
           = trace (processGroup rx cfg g p) @ concat bs"
      "list_all2 (\<lambda>g b. groupBlock (name g) b) gs bs" by blast
  have "trace (sortAllTabs_loop rx cfg (g # gs) p) = trace p @ concat (b # bs)"
    using b(1) bs(1) by simp
  moreover have "list_all2 (\<lambda>g b. groupBlock (name g) b) (g # gs) (b # bs)"
    using b(2) bs(2) by simp
  ultimately show ?case by blast
qed

text \<open>
  C9. With an enabled configuration that has groups, the trace of a
  \<^verbatim>\<open>sortAllTabs\<close> pass is one block per group, the groups taken in the
  order of a stable sort by priority number (ascending; it is a rearrangement
  of the configured groups). The block of a group starts with the start of the
  group's iteration, lists the tabs pushed on \<^verbatim>\<open>tabsToMove\<close>, and then holds
  the events of the group's move loop, which attempts exactly those tabs in
  that order: all moves of one group are attempted before the next group's
  tabs are looked at.
\<close>

theorem sortAllTabs_priority_order:
  assumes "enabled cfg" and "groups cfg \<noteq> []"
  shows "(\<exists>blocks. trace (sortAllTabs rx cfg s) = concat blocks \<and>
            list_all2 (\<lambda>g b. groupBlock (name g) b) (sort_key priority (groups cfg)) blocks) \<and>
         sorted (map priority (sort_key priority (groups cfg))) \<and>
         mset (sort_key priority (groups cfg)) = mset (groups cfg)"
proof -
  let ?p = "\<lparr>passState = s, movedCount = 0, errors = [], trace = []\<rparr>"
  from sortAllTabs_loop_trace [of rx cfg "sort_key priority (groups cfg)" ?p] assms
  have "\<exists>blocks. trace (sortAllTabs rx cfg s) = concat blocks \<and>
            list_all2 (\<lambda>g b. groupBlock (name g) b) (sort_key priority (groups cfg)) blocks"
    by (simp add: sortAllTabs_def)
  then show ?thesis by simp
qed

theorem sortAllTabs_priority_order_witness:
  "enabled exOrderConfig \<and> groups exOrderConfig \<noteq> [] \<and>
   map name (sort_key priority (groups exOrderConfig)) = [''X'', ''Y''] \<and>
   (\<exists>blocks. trace (sortAllTabs noRegExp exOrderConfig exOrderState) = concat blocks \<and>
      list_all2 (\<lambda>g b. groupBlock (name g) b) (sort_key priority (groups exOrderConfig)) blocks) \<and>
   trace (sortAllTabs noRegExp exOrderConfig exOrderState)
     = [Processing ''X'', WillMove ''X'' 3, WillMove ''X'' 2,
        Attempt ''X'' 3, TabsMove ''X'' 3 100, Moved ''X'' 3,
        Attempt ''X'' 2, TabsMove ''X'' 2 100, Moved ''X'' 2,
        Processing ''Y'', WillMove ''Y'' 1, Attempt ''Y'' 1,
        TabsMove ''Y'' 1 200, Moved ''Y'' 1]"
proof -
  have e: "enabled exOrderConfig" "groups exOrderConfig \<noteq> []" by (simp_all add: exOrderConfig_def)
  have n: "map name (sort_key priority (groups exOrderConfig)) = [''X'', ''Y'']"
    by (simp add: exOrderConfig_def)
  have t: "trace (sortAllTabs noRegExp exOrderConfig exOrderState)
     = [Processing ''X'', WillMove ''X'' 3, WillMove ''X'' 2,
        Attempt ''X'' 3, TabsMove ''X'' 3 100, Moved ''X'' 3,
        Attempt ''X'' 2, TabsMove ''X'' 2 100, Moved ''X'' 2,
        Processing ''Y'', WillMove ''Y'' 1, Attempt ''Y'' 1,
        TabsMove ''Y'' 1 200, Moved ''Y'' 1]"
    by code_simp
  from sortAllTabs_priority_order [OF e, of noRegExp exOrderState] e n t show ?thesis by blast
qed

end
